theory Spec2Isabelle
  imports Main "HOL-Library.Sublist"
begin

section \<open>Text\<close>

text \<open>
  A Python \<open>str\<close> is a \<^typ>\<open>string\<close>; one \<^typ>\<open>char\<close> stands for one code point
  below 256. The characters the program itself writes (its messages, its levels, the
  JSON punctuation) are all ASCII.
\<close>

abbreviation LF :: char where "LF \<equiv> CHR 0x0A"
abbreviation CR :: char where "CR \<equiv> CHR 0x0D"
abbreviation QUOTE :: char where "QUOTE \<equiv> CHR 0x22"
abbreviation BSLASH :: char where "BSLASH \<equiv> CHR 0x5C"

text \<open>
  \<open>str.strip()\<close> without arguments removes leading and trailing whitespace: the
  characters for which \<open>str.isspace()\<close> holds. Below 256 these are TAB..CR (9..13),
  FS..US (28..31), the space (32), NEL (133) and the no-break space (160).
\<close>

definition isspace :: "char \<Rightarrow> bool" where
  "isspace c =
     (let n = (of_char c :: nat)
      in (9 \<le> n \<and> n \<le> 13) \<or> (28 \<le> n \<and> n \<le> 32) \<or> n = 133 \<or> n = 160)"

definition strip :: "string \<Rightarrow> string" where
  "strip s = rev (dropWhile isspace (rev (dropWhile isspace s)))"

text \<open>
  \<open>str.upper()\<close> on code points below 256: the letters a..z, and the Latin-1 letters
  U+00E0..U+00FE other than the division sign U+00F7, go to the letter 32 below them;
  the sharp s U+00DF goes to the two letters \<open>SS\<close>; every other character stays. The
  upper-case forms of the micro sign U+00B5 and of U+00FF lie beyond 255, outside what a
  \<^typ>\<open>char\<close> can hold: \<open>upper_known\<close> says that a string has neither, and what
  is proved of \<open>upper\<close> is proved for such strings.
\<close>

definition upper_char :: "char \<Rightarrow> string" where
  "upper_char c =
     (let n = (of_char c :: nat)
      in if (97 \<le> n \<and> n \<le> 122) \<or> (224 \<le> n \<and> n \<le> 254 \<and> n \<noteq> 247) then [char_of (n - 32)]
         else if n = 223 then ''SS''
         else [c])"

definition upper :: "string \<Rightarrow> string" where
  "upper s = concat (map upper_char s)"

definition upper_known :: "string \<Rightarrow> bool" where
  "upper_known s \<longleftrightarrow> CHR 0xB5 \<notin> set s \<and> CHR 0xFF \<notin> set s"

text \<open>Decimal rendering of an integer, as \<open>str(i)\<close> and as SQLite's text form of it.\<close>

fun digits10 :: "nat \<Rightarrow> string" where
  "digits10 n =
     (if n < 10 then [char_of (48 + n)]
      else digits10 (n div 10) @ [char_of (48 + n mod 10)])"

definition show_int :: "int \<Rightarrow> string" where
  "show_int i = (if i < 0 then CHR ''-'' # digits10 (nat (- i)) else digits10 (nat i))"

section \<open>JSON values, requests and responses\<close>

text \<open>
  What \<open>request.json\<close> delivers and what \<open>jsonify\<close> is given. \<open>JNull\<close> is
  Python's \<open>None\<close>; an object is the parsed dict, as an association list read with
  \<^const>\<open>map_of\<close>. JSON numbers with a fraction or an exponent (Python floats) are
  left out of the model.
\<close>

datatype json =
    JNull
  | JBool bool
  | JInt int
  | JStr string
  | JArr "json list"
  | JObj "(string \<times> json) list"

text \<open>Python truthiness, as the \<open>or\<close> of \<open>request.json or {}\<close> tests it.\<close>

fun truthy :: "json \<Rightarrow> bool" where
  "truthy JNull = False"
| "truthy (JBool b) = b"
| "truthy (JInt i) = (i \<noteq> 0)"
| "truthy (JStr s) = (s \<noteq> [])"
| "truthy (JArr xs) = (xs \<noteq> [])"
| "truthy (JObj kvs) = (kvs \<noteq> [])"

text \<open>\<open>d.get(key, default)\<close>.\<close>

definition dict_get :: "(string \<times> json) list \<Rightarrow> string \<Rightarrow> json \<Rightarrow> json" where
  "dict_get kvs k d = (case map_of kvs k of None \<Rightarrow> d | Some v \<Rightarrow> v)"

record response =
  status :: nat
  body :: json

text \<open>
  The exceptions that the modelled code can raise. \<open>AttributeError\<close>: \<open>.get\<close> or
  \<open>.strip\<close> on a value that has no such method. \<open>BindError\<close>: sqlite3 refuses to
  bind a list or a dict. \<open>OverflowError\<close>: a Python int outside the 64-bit range of
  an SQLite INTEGER. \<open>OperationalError\<close>: the AUTOINCREMENT key space is used up.
  \<open>OSError\<close>: the log file cannot be opened or written; it carries \<open>str(e)\<close>.
\<close>

datatype exn =
    AttributeError
  | BindError
  | OverflowError
  | OperationalError
  | OSError string

section \<open>The memory table\<close>

text \<open>
  \<open>init_db\<close> creates \<open>memory (id INTEGER PRIMARY KEY AUTOINCREMENT, timestamp TEXT,
  category TEXT, content TEXT)\<close>. A column of TEXT affinity holds NULL or text (numbers
  are converted to text when stored). \<open>seq\<close> is the table's entry in
  \<open>sqlite_sequence\<close>: the largest id ever assigned; it lives in the database file.
\<close>

datatype sqlval = SqlNull | SqlText string

record row =
  row_id :: nat
  timestamp :: string
  category :: sqlval
  content :: string

record table =
  rows :: "row list"
  seq :: nat

text \<open>
  \<open>CREATE TABLE IF NOT EXISTS\<close>: a new database file gets the empty table, an
  existing one is left as it is. The argument is the table found in the file at start-up.
\<close>

definition init_db :: "table option \<Rightarrow> table" where
  "init_db found = (case found of None \<Rightarrow> \<lparr>rows = [], seq = 0\<rparr> | Some t \<Rightarrow> t)"

definition MAX_ROWID :: nat where
  "MAX_ROWID = 9223372036854775807"

text \<open>
  \<open>INSERT INTO memory (timestamp, category, content) VALUES (?, ?, ?)\<close> on an
  AUTOINCREMENT key: the new id is one more than the largest id that ever existed in the
  table (the larger of \<open>sqlite_sequence\<close> and the ids present); when that is the largest
  64-bit integer the insert fails. Rows are kept in id order, which is the order a scan
  of the table returns them in.
\<close>

definition largest_id :: "table \<Rightarrow> nat" where
  "largest_id t = fold max (map row_id (rows t)) (seq t)"

definition insert_row :: "string \<Rightarrow> sqlval \<Rightarrow> string \<Rightarrow> table \<Rightarrow> exn + table" where
  "insert_row ts cat data t =
     (let last = largest_id t
      in if MAX_ROWID \<le> last then Inl OperationalError
         else Inr \<lparr>rows = rows t @ [\<lparr>row_id = last + 1, timestamp = ts,
                                       category = cat, content = data\<rparr>],
                   seq = last + 1\<rparr>)"

text \<open>
  Binding a Python value to a parameter of the statement, followed by the column's TEXT
  affinity: \<open>None\<close> is NULL, a str is itself, an int (and a bool, which is an int) is
  stored in its decimal text form, a list or a dict cannot be bound.
\<close>

fun bind_param :: "json \<Rightarrow> exn + sqlval" where
  "bind_param JNull = Inr SqlNull"
| "bind_param (JBool b) = Inr (SqlText (if b then ''1'' else ''0''))"
| "bind_param (JInt i) =
     (if - 9223372036854775808 \<le> i \<and> i \<le> 9223372036854775807
      then Inr (SqlText (show_int i)) else Inl OverflowError)"
| "bind_param (JStr s) = Inr (SqlText s)"
| "bind_param (JArr xs) = Inl BindError"
| "bind_param (JObj kvs) = Inl BindError"

text \<open>
  \<open>str(category)\<close>, as the f-string of the log message formats it. The message is
  formatted after the insert, so a list or a dict never gets here.
\<close>

fun py_str :: "json \<Rightarrow> string" where
  "py_str JNull = ''None''"
| "py_str (JBool b) = (if b then ''True'' else ''False'')"
| "py_str (JInt i) = show_int i"
| "py_str (JStr s) = s"
| "py_str (JArr xs) = []"
| "py_str (JObj kvs) = []"

text \<open>
  SQLite's \<open>LIKE\<close> (no ESCAPE clause, \<open>case_sensitive_like\<close> off): \<open>%\<close> in the
  pattern matches any run of zero or more characters, \<open>_\<close> matches any one character,
  any other character matches itself or the same ASCII letter in the other case.
  \<open>like_match\<close> is the comparison of a pattern with a text, both free of NUL.
\<close>

definition like_fold :: "char \<Rightarrow> char" where
  "like_fold c =
     (let n = (of_char c :: nat) in if 65 \<le> n \<and> n \<le> 90 then char_of (n + 32) else c)"

fun like_match :: "string \<Rightarrow> string \<Rightarrow> bool" where
  "like_match [] [] = True"
| "like_match [] (c # s) = False"
| "like_match (p # ps) [] = (p = CHR ''%'' \<and> like_match ps [])"
| "like_match (p # ps) (c # s) =
     (if p = CHR ''%'' then like_match ps (c # s) \<or> like_match (p # ps) s
      else (p = CHR ''_'' \<or> like_fold p = like_fold c) \<and> like_match ps s)"

text \<open>
  The \<open>LIKE\<close> operator as the query meets it. SQLite reads the pattern and the text
  as C strings: each ends at its first NUL character, whatever follows. Before that it
  measures the whole pattern in bytes (UTF-8: one byte for a code point below 128, two
  for one below 256) and raises \<open>LIKE or GLOB pattern too complex\<close> when there are more
  than \<open>SQLITE_MAX_LIKE_PATTERN_LENGTH\<close>.
\<close>

abbreviation NUL :: char where "NUL \<equiv> CHR 0x00"

definition c_string :: "string \<Rightarrow> string" where
  "c_string s = takeWhile (\<lambda>c. c \<noteq> NUL) s"

definition utf8_length :: "string \<Rightarrow> nat" where
  "utf8_length s = length s + length (filter (\<lambda>c. 128 \<le> (of_char c :: nat)) s)"

definition SQLITE_MAX_LIKE_PATTERN_LENGTH :: nat where
  "SQLITE_MAX_LIKE_PATTERN_LENGTH = 50000"

definition sql_like :: "string \<Rightarrow> string \<Rightarrow> exn + bool" where
  "sql_like pattern data =
     (if SQLITE_MAX_LIKE_PATTERN_LENGTH < utf8_length pattern then Inl OperationalError
      else Inr (like_match (c_string pattern) (c_string data)))"

section \<open>The log file\<close>

text \<open>
  \<open>json.dumps\<close> of a str with the default \<open>ensure_ascii=True\<close>: the quote and the
  backslash are escaped, so are backspace, form feed, newline, carriage return and tab by
  their short forms, and every other character outside space..tilde as \<open>\u00XX\<close>
  (lower-case hexadecimal).
\<close>

definition hex_digit :: "nat \<Rightarrow> char" where
  "hex_digit n = ''0123456789abcdef'' ! n"

definition escape_char :: "char \<Rightarrow> string" where
  "escape_char c =
     (if c = QUOTE then [BSLASH, QUOTE]
      else if c = BSLASH then [BSLASH, BSLASH]
      else if c = LF then [BSLASH, CHR ''n'']
      else if c = CR then [BSLASH, CHR ''r'']
      else if c = CHR 0x09 then [BSLASH, CHR ''t'']
      else if c = CHR 0x08 then [BSLASH, CHR ''b'']
      else if c = CHR 0x0C then [BSLASH, CHR ''f'']
      else if 32 \<le> (of_char c :: nat) \<and> (of_char c :: nat) \<le> 126 then [c]
      else [BSLASH, CHR ''u'', CHR ''0'', CHR ''0'',
            hex_digit (of_char c div 16), hex_digit (of_char c mod 16)])"

definition dumps_str :: "string \<Rightarrow> string" where
  "dumps_str s = QUOTE # concat (map escape_char s) @ [QUOTE]"

text \<open>
  \<open>json.dumps\<close> of a dict whose keys and values are strings, with the default
  separators \<open>", "\<close> and \<open>": "\<close>, the items in the dict's order.
\<close>

definition dumps_item :: "string \<times> string \<Rightarrow> string" where
  "dumps_item kv = dumps_str (fst kv) @ '': '' @ dumps_str (snd kv)"

fun join_items :: "string list \<Rightarrow> string" where
  "join_items [] = []"
| "join_items [x] = x"
| "join_items (x # y # ys) = x @ '', '' @ join_items (y # ys)"

definition dumps_dict :: "(string \<times> string) list \<Rightarrow> string" where
  "dumps_dict kvs = ''{'' @ join_items (map dumps_item kvs) @ ''}''"

text \<open>
  The file system as far as the program uses it: the text of \<open>LOG_FILE\<close>, \<open>None\<close>
  while the file does not exist; and the memory table of \<open>MEMORY_DB\<close>.
\<close>

record world =
  memory :: table
  log_file :: "string option"

text \<open>
  What the environment answers during one call of \<open>log_event\<close>: the reading of
  \<open>datetime.datetime.now().isoformat()\<close>, and whether opening the file for appending
  and writing to it goes through (\<open>None\<close>) or raises. \<open>OpenFails\<close>: \<open>open\<close>
  raises and the file is untouched. \<open>WriteFails k\<close>: the file is opened (and created
  when it was not there), the first \<open>k\<close> characters of the line reach it, and the
  write or the close raises. Both carry the text of the exception.
\<close>

datatype fault = OpenFails string | WriteFails nat string

record log_env =
  now :: string
  fault :: "fault option"

definition file_text :: "string option \<Rightarrow> string" where
  "file_text f = (case f of None \<Rightarrow> [] | Some t \<Rightarrow> t)"

definition log_line :: "string \<Rightarrow> string \<Rightarrow> string \<Rightarrow> string" where
  "log_line ts level message =
     dumps_dict [(''timestamp'', ts), (''level'', upper level), (''message'', message)] @ [LF]"

definition fault_text :: "fault \<Rightarrow> string" where
  "fault_text f = (case f of OpenFails e \<Rightarrow> e | WriteFails k e \<Rightarrow> e)"

definition fault_leaves :: "fault \<Rightarrow> string \<Rightarrow> string option \<Rightarrow> string option" where
  "fault_leaves f line file =
     (case f of
        OpenFails e \<Rightarrow> file
      | WriteFails k e \<Rightarrow> Some (file_text file @ take k line))"

text \<open>
  \<open>log_event\<close>: the result is the world after the line is appended, or the exception
  with the world the failed call leaves behind.
\<close>

definition log_event ::
  "log_env \<Rightarrow> string \<Rightarrow> string \<Rightarrow> world \<Rightarrow> exn \<times> world + world" where
  "log_event env message level w =
     (case fault env of
        Some f \<Rightarrow>
          Inl (OSError (fault_text f),
               w\<lparr>log_file := fault_leaves f (log_line (now env) level message) (log_file w)\<rparr>)
      | None \<Rightarrow>
          Inr (w\<lparr>log_file := Some (file_text (log_file w) @ log_line (now env) level message)\<rparr>))"

text \<open>
  Reading the file in text mode (\<open>newline=None\<close>): \<open>\r\n\<close> and \<open>\r\<close> are read as
  \<open>\n\<close>; \<open>readlines()\<close> cuts after every \<open>\n\<close> and keeps it, and a last line
  without one is a line too.
\<close>

fun universal_newlines :: "string \<Rightarrow> string" where
  "universal_newlines [] = []"
| "universal_newlines [c] = (if c = CR then [LF] else [c])"
| "universal_newlines (c # d # cs) =
     (if c = CR then (if d = LF then LF # universal_newlines cs
                      else LF # universal_newlines (d # cs))
      else c # universal_newlines (d # cs))"

fun cut_lines :: "string \<Rightarrow> string \<Rightarrow> string list" where
  "cut_lines cur [] = (if cur = [] then [] else [cur])"
| "cut_lines cur (c # cs) =
     (if c = LF then (cur @ [LF]) # cut_lines [] cs else cut_lines (cur @ [c]) cs)"

definition readlines :: "string \<Rightarrow> string list" where
  "readlines data = cut_lines [] (universal_newlines data)"

text \<open>The slice \<open>[-100:]\<close>: the last 100 elements, or all of them when there are fewer.\<close>

definition last100 :: "'a list \<Rightarrow> 'a list" where
  "last100 xs = drop (length xs - 100) xs"

section \<open>The memory system\<close>

text \<open>
  \<open>add_memory_entry\<close>: the insert and its commit, then the log line. \<open>ts\<close> is the
  reading of the clock for the row; the log line has its own. An exception leaves the
  world as it is at that point: a failing log write comes after the commit, and may
  leave its own trace in the log file.
\<close>

definition add_memory_entry ::
  "string \<Rightarrow> log_env \<Rightarrow> json \<Rightarrow> string \<Rightarrow> world \<Rightarrow> (exn + unit) \<times> world" where
  "add_memory_entry ts env cat data w =
     (case bind_param cat of
        Inl e \<Rightarrow> (Inl e, w)
      | Inr c \<Rightarrow>
          (case insert_row ts c data (memory w) of
             Inl e \<Rightarrow> (Inl e, w)
           | Inr t \<Rightarrow>
               (let w1 = w\<lparr>memory := t\<rparr>
                in case log_event env (''Memory entry added under '' @ [CHR 0x27] @ py_str cat @ [CHR 0x27])
                          ''SUCCESS'' w1 of
                     Inl (e, w2) \<Rightarrow> (Inl e, w2)
                   | Inr w2 \<Rightarrow> (Inr (), w2))))"

text \<open>What the environment answers during one request: the clock reading for the row,
  and the answers for the log line.\<close>

record req_env =
  row_now :: string
  log_answers :: log_env

definition api_add_memory :: "req_env \<Rightarrow> json \<Rightarrow> world \<Rightarrow> (exn + response) \<times> world" where
  "api_add_memory env req_json w =
     (case (if truthy req_json then req_json else JObj []) of
        JObj payload \<Rightarrow>
          (let cat = dict_get payload ''category'' (JStr ''General'');
               cont = dict_get payload ''content'' (JStr [])
           in case cont of
                JStr data \<Rightarrow>
                  if strip data = []
                  then (Inr \<lparr>status = 400,
                             body = JObj [(''status'', JStr ''Error''),
                                          (''message'', JStr ''Content cannot be empty'')]\<rparr>, w)
                  else (case add_memory_entry (row_now env) (log_answers env) cat data w of
                          (Inl e, w') \<Rightarrow> (Inl e, w')
                        | (Inr u, w') \<Rightarrow>
                            (Inr \<lparr>status = 200,
                                  body = JObj [(''status'', JStr ''Success''),
                                               (''message'', JStr ''Memory entry added.'')]\<rparr>, w'))
              | _ \<Rightarrow> (Inl AttributeError, w))
      | _ \<Rightarrow> (Inl AttributeError, w))"

definition sql_json :: "sqlval \<Rightarrow> json" where
  "sql_json v = (case v of SqlNull \<Rightarrow> JNull | SqlText s \<Rightarrow> JStr s)"

definition match_json :: "row \<Rightarrow> json" where
  "match_json r =
     JObj [(''timestamp'', JStr (timestamp r)), (''category'', sql_json (category r)),
           (''content'', JStr (content r))]"

text \<open>
  \<open>SELECT timestamp, category, content FROM memory WHERE content LIKE ?\<close> with the
  parameter \<open>'%' + keyword + '%'\<close>: the rows are scanned in order and \<open>LIKE\<close> is
  evaluated on each; the first evaluation that raises ends the query with its exception
  (on an empty table there is none). The exception is not caught by the handler.
\<close>

fun search_rows :: "string \<Rightarrow> row list \<Rightarrow> exn + row list" where
  "search_rows keyword [] = Inr []"
| "search_rows keyword (r # rs) =
     (case sql_like (CHR ''%'' # keyword @ ''%'') (content r) of
        Inl e \<Rightarrow> Inl e
      | Inr hit \<Rightarrow>
          (case search_rows keyword rs of
             Inl e \<Rightarrow> Inl e
           | Inr found \<Rightarrow> Inr (if hit then r # found else found)))"

definition api_memory_search :: "string \<Rightarrow> world \<Rightarrow> exn + response" where
  "api_memory_search keyword w =
     (case search_rows keyword (rows (memory w)) of
        Inl e \<Rightarrow> Inl e
      | Inr found \<Rightarrow>
          (let results = map match_json found
           in Inr \<lparr>status = 200,
                  body = JObj [(''matches'', JArr results),
                               (''count'', JInt (int (length results)))]\<rparr>))"

section \<open>Log retrieval\<close>

definition retrieve_logs :: "world \<Rightarrow> response" where
  "retrieve_logs w =
     (case log_file w of
        None \<Rightarrow> \<lparr>status = 404, body = JObj [(''error'', JStr ''Log file not found.'')]\<rparr>
      | Some data \<Rightarrow>
          (let logs = last100 (readlines data)
           in \<lparr>status = 200,
               body = JObj [(''logs'', JArr (map JStr logs)), (''count'', JInt (int (length logs)))]\<rparr>))"

section \<open>Authentication and dispatch\<close>

text \<open>
  \<open>authenticate\<close> is registered with \<open>before_request\<close>: it runs before the view of
  every route, and when it returns a response that response is sent and the view is not
  called. \<open>secret\<close> is \<open>API_SECRET\<close>; the header is \<open>None\<close> when the request has no
  \<open>X-API-KEY\<close>.
\<close>

definition authenticate :: "string \<Rightarrow> string option \<Rightarrow> response option" where
  "authenticate secret auth_header =
     (if auth_header \<noteq> Some secret
      then Some \<lparr>status = 401, body = JObj [(''error'', JStr ''Unauthorized'')]\<rparr>
      else None)"

definition get_api_key :: "string \<Rightarrow> response" where
  "get_api_key secret = \<lparr>status = 200, body = JObj [(''api_key'', JStr secret)]\<rparr>"

datatype route =
    MemoryAdd json
  | MemorySearch string
  | LogsRetrieve
  | GetApiKey

record request =
  x_api_key :: "string option"
  target :: route

definition view :: "string \<Rightarrow> req_env \<Rightarrow> route \<Rightarrow> world \<Rightarrow> (exn + response) \<times> world" where
  "view secret env r w =
     (case r of
        MemoryAdd req_json \<Rightarrow> api_add_memory env req_json w
      | MemorySearch keyword \<Rightarrow> (api_memory_search keyword w, w)
      | LogsRetrieve \<Rightarrow> (Inr (retrieve_logs w), w)
      | GetApiKey \<Rightarrow> (Inr (get_api_key secret), w))"

definition handle_request ::
  "string \<Rightarrow> req_env \<Rightarrow> request \<Rightarrow> world \<Rightarrow> (exn + response) \<times> world" where
  "handle_request secret env req w =
     (case authenticate secret (x_api_key req) of
        Some denied \<Rightarrow> (Inr denied, w)
      | None \<Rightarrow> view secret env (target req) w)"

section \<open>Self-maintenance\<close>

definition PERIODIC_TASK_INTERVAL :: nat where
  "PERIODIC_TASK_INTERVAL = 300"

text \<open>
  What the maintenance thread does, in order: a line it got into the log (level and
  message as passed to \<open>log_event\<close>), a sleep of so many seconds.
\<close>

datatype event = Logged string string | Slept nat

record heartbeat =
  hb_world :: world
  hb_trace :: "event list"

text \<open>The environment's answers during one iteration: for the \<open>log_event\<close> of the
  \<open>try\<close> block and for the one of the handler.\<close>

record iter_env =
  try_answers :: log_env
  handler_answers :: log_env

text \<open>
  One iteration of \<open>while True\<close>. \<open>time.sleep\<close> of a positive constant does not
  raise. An exception of the \<open>try\<close> block is caught; one raised inside the handler is
  not, and ends the loop and its thread. \<open>str_exn\<close> is \<open>str(e)\<close>: the only
  exception \<open>log_event\<close> raises is an \<open>OSError\<close>, whose text it is.
\<close>

definition str_exn :: "exn \<Rightarrow> string" where
  "str_exn e = (case e of OSError m \<Rightarrow> m | _ \<Rightarrow> [])"

definition loop_body :: "iter_env \<Rightarrow> heartbeat \<Rightarrow> exn \<times> heartbeat + heartbeat" where
  "loop_body env h =
     (case log_event (try_answers env) ''Self-check: AI-OS running smoothly'' ''INFO'' (hb_world h) of
        Inr w \<Rightarrow>
          Inr \<lparr>hb_world = w,
               hb_trace = hb_trace h @ [Logged ''INFO'' ''Self-check: AI-OS running smoothly'',
                                        Slept PERIODIC_TASK_INTERVAL]\<rparr>
      | Inl (e, w1) \<Rightarrow>
          (case log_event (handler_answers env) (''Background maintenance error: '' @ str_exn e)
                  ''ERROR'' w1 of
             Inr w \<Rightarrow>
               Inr \<lparr>hb_world = w,
                    hb_trace = hb_trace h @ [Logged ''ERROR'' (''Background maintenance error: '' @ str_exn e),
                                             Slept PERIODIC_TASK_INTERVAL]\<rparr>
           | Inl (e', w2) \<Rightarrow> Inl (e', h\<lparr>hb_world := w2\<rparr>)))"

text \<open>
  The loop, observed for \<open>n\<close> iterations from iteration \<open>i\<close> on: \<open>Running\<close> when it
  is still going after them, \<open>Died\<close> when an exception left it.
\<close>

datatype outcome = Running heartbeat | Died exn heartbeat

fun background_maintenance :: "nat \<Rightarrow> (nat \<Rightarrow> iter_env) \<Rightarrow> nat \<Rightarrow> heartbeat \<Rightarrow> outcome" where
  "background_maintenance 0 env i h = Running h"
| "background_maintenance (Suc n) env i h =
     (case loop_body (env i) h of
        Inl (e, h') \<Rightarrow> Died e h'
      | Inr h' \<Rightarrow> background_maintenance n env (Suc i) h')"

text \<open>
  An environment that gives the same answers in every iteration; and what one iteration
  is expected to leave in the trace and in the log file: the heartbeat line when it can
  be written; when it cannot, the error line with the text of the exception, after
  whatever part of the heartbeat line the failed write left in the file.
\<close>

definition steady :: "log_env \<Rightarrow> log_env \<Rightarrow> nat \<Rightarrow> iter_env" where
  "steady a b i = \<lparr>try_answers = a, handler_answers = b\<rparr>"

definition beat :: "iter_env \<Rightarrow> event list" where
  "beat e =
     (case fault (try_answers e) of
        None \<Rightarrow> [Logged ''INFO'' ''Self-check: AI-OS running smoothly'',
                 Slept PERIODIC_TASK_INTERVAL]
      | Some f \<Rightarrow> [Logged ''ERROR'' (''Background maintenance error: '' @ fault_text f),
                   Slept PERIODIC_TASK_INTERVAL])"

definition fault_partial :: "fault \<Rightarrow> string \<Rightarrow> string" where
  "fault_partial f line = (case f of OpenFails e \<Rightarrow> [] | WriteFails k e \<Rightarrow> take k line)"

definition beat_line :: "iter_env \<Rightarrow> string" where
  "beat_line e =
     (case fault (try_answers e) of
        None \<Rightarrow> log_line (now (try_answers e)) ''INFO'' ''Self-check: AI-OS running smoothly''
      | Some f \<Rightarrow>
          fault_partial f
            (log_line (now (try_answers e)) ''INFO'' ''Self-check: AI-OS running smoothly'') @
          log_line (now (handler_answers e)) ''ERROR''
            (''Background maintenance error: '' @ fault_text f))"

section \<open>Reading a log line back\<close>

text \<open>
  What it means for a line of text to be a JSON object: the reading direction of the
  JSON grammar (RFC 8259), for objects whose members are strings, as \<open>json.loads\<close>
  reads them. A string is read from after its opening quote up to its closing quote; a
  backslash introduces one of the short escapes, or \<open>u\<close> with four hexadecimal
  digits (here for code points below 256); a control character inside a string is
  refused. Whitespace may stand between the tokens and around the object; anything else
  after the closing brace is refused.
\<close>

definition hex_val :: "char \<Rightarrow> nat option" where
  "hex_val c =
     (let n = (of_char c :: nat)
      in if 48 \<le> n \<and> n \<le> 57 then Some (n - 48)
         else if 97 \<le> n \<and> n \<le> 102 then Some (n - 87)
         else if 65 \<le> n \<and> n \<le> 70 then Some (n - 55)
         else None)"

definition unescape :: "char \<Rightarrow> char option" where
  "unescape e =
     (if e = QUOTE then Some QUOTE
      else if e = BSLASH then Some BSLASH
      else if e = CHR ''/'' then Some (CHR ''/'')
      else if e = CHR ''b'' then Some (CHR 0x08)
      else if e = CHR ''f'' then Some (CHR 0x0C)
      else if e = CHR ''n'' then Some LF
      else if e = CHR ''r'' then Some CR
      else if e = CHR ''t'' then Some (CHR 0x09)
      else None)"

definition hex4 :: "char \<Rightarrow> char \<Rightarrow> char \<Rightarrow> char \<Rightarrow> nat option" where
  "hex4 a b c d =
     (case hex_val a of None \<Rightarrow> None | Some x3 \<Rightarrow>
      case hex_val b of None \<Rightarrow> None | Some x2 \<Rightarrow>
      case hex_val c of None \<Rightarrow> None | Some x1 \<Rightarrow>
      case hex_val d of None \<Rightarrow> None | Some x0 \<Rightarrow>
        Some (((x3 * 16 + x2) * 16 + x1) * 16 + x0))"

definition push :: "char \<Rightarrow> (string \<times> string) option \<Rightarrow> (string \<times> string) option" where
  "push c r = (case r of None \<Rightarrow> None | Some (s, rest) \<Rightarrow> Some (c # s, rest))"

fun loads_chars :: "string \<Rightarrow> (string \<times> string) option" where
  "loads_chars [] = None"
| "loads_chars (c # cs) =
     (if c = QUOTE then Some ([], cs)
      else if c = BSLASH then
        (case cs of
           [] \<Rightarrow> None
         | e # r \<Rightarrow>
             if e = CHR ''u'' then
               (case r of
                  a # b # c' # d # r' \<Rightarrow>
                    (case hex4 a b c' d of
                       None \<Rightarrow> None
                     | Some n \<Rightarrow>
                         if n < 256 then push (char_of n) (loads_chars r') else None)
                | _ \<Rightarrow> None)
             else (case unescape e of
                     None \<Rightarrow> None
                   | Some ch \<Rightarrow> push ch (loads_chars r)))
      else if (of_char c :: nat) < 32 then None
      else push c (loads_chars cs))"

definition is_ws :: "char \<Rightarrow> bool" where
  "is_ws c \<longleftrightarrow> c = CHR '' '' \<or> c = CHR 0x09 \<or> c = LF \<or> c = CR"

definition skip_ws :: "string \<Rightarrow> string" where
  "skip_ws s = dropWhile is_ws s"

definition expect :: "char \<Rightarrow> string \<Rightarrow> string option" where
  "expect ch s = (case skip_ws s of [] \<Rightarrow> None | c # r \<Rightarrow> if c = ch then Some r else None)"

definition loads_quoted :: "string \<Rightarrow> (string \<times> string) option" where
  "loads_quoted s = (case expect QUOTE s of None \<Rightarrow> None | Some r \<Rightarrow> loads_chars r)"

definition loads_member :: "string \<Rightarrow> ((string \<times> string) \<times> string) option" where
  "loads_member s =
     (case loads_quoted s of
        None \<Rightarrow> None
      | Some (k, r1) \<Rightarrow>
          (case expect (CHR '':'') r1 of
             None \<Rightarrow> None
           | Some r2 \<Rightarrow>
               (case loads_quoted r2 of
                  None \<Rightarrow> None
                | Some (v, r3) \<Rightarrow> Some ((k, v), r3))))"

function loads_members :: "string \<Rightarrow> (string \<times> string) list option" where
  "loads_members s =
     (case loads_member s of
        None \<Rightarrow> None
      | Some (kv, r) \<Rightarrow>
          (case skip_ws r of
             [] \<Rightarrow> None
           | c # r' \<Rightarrow>
               if c = CHR '','' then
                 (case loads_members r' of None \<Rightarrow> None | Some kvs \<Rightarrow> Some (kv # kvs))
               else if c = CHR ''}'' \<and> skip_ws r' = [] then Some [kv]
               else None))"
  by pat_completeness auto

text \<open>A whole text as one object: the braces, the members between them (or none), and
  nothing but whitespace after the closing brace.\<close>

definition loads_dict :: "string \<Rightarrow> (string \<times> string) list option" where
  "loads_dict s =
     (case expect (CHR ''{'') s of
        None \<Rightarrow> None
      | Some r \<Rightarrow>
          (case expect (CHR ''}'') r of
             Some r' \<Rightarrow> if skip_ws r' = [] then Some [] else None
           | None \<Rightarrow> loads_members r))"

text \<open>A log file in which every line is complete: it does not exist, is empty, or ends
  with a newline.\<close>

definition terminated :: "string option \<Rightarrow> bool" where
  "terminated f = (case f of None \<Rightarrow> True | Some t \<Rightarrow> t = [] \<or> last t = LF)"

section \<open>Runs of the service\<close>

text \<open>
  The world at the very first start-up: a new database file, which \<open>init_db\<close>
  fills with the empty table, and no log file yet.
\<close>

definition first_start :: world where
  "first_start = \<lparr>memory = init_db None, log_file = None\<rparr>"

text \<open>An environment in which the clock reads \<open>t1\<close> for the row and \<open>t2\<close> for
  the log line, and the log file can be written.\<close>

definition calm :: "string \<Rightarrow> string \<Rightarrow> req_env" where
  "calm t1 t2 = \<lparr>row_now = t1, log_answers = \<lparr>now = t2, fault = None\<rparr>\<rparr>"

text \<open>
  The requests of one process, one after the other (\<open>memory_lock\<close> serialises the
  accesses to the table), each with the answers of its environment.
\<close>

fun serve :: "string \<Rightarrow> (req_env \<times> request) list \<Rightarrow> world \<Rightarrow> world" where
  "serve secret [] w = w"
| "serve secret ((env, req) # rest) w = serve secret rest (snd (handle_request secret env req w))"

text \<open>
  A process start runs \<open>init_db\<close> on the database file that is there, and draws a
  new secret. The life of the storage file is a sequence of processes, each with its
  secret and its requests.
\<close>

definition restart :: "world \<Rightarrow> world" where
  "restart w = w\<lparr>memory := init_db (Some (memory w))\<rparr>"

fun lifetimes :: "(string \<times> (req_env \<times> request) list) list \<Rightarrow> world \<Rightarrow> world" where
  "lifetimes [] w = w"
| "lifetimes ((secret, reqs) # later) w = lifetimes later (serve secret reqs (restart w))"

text \<open>The ids of a table are in order: strictly increasing in insertion order,
  positive, and none above \<open>sqlite_sequence\<close>.\<close>

definition ids_ok :: "table \<Rightarrow> bool" where
  "ids_ok t \<longleftrightarrow>
     sorted_wrt (<) (map row_id (rows t)) \<and> (\<forall>r\<in>set (rows t). 0 < row_id r \<and> row_id r \<le> seq t)"

section \<open>Termination of reading a log line\<close>

text \<open>What is left after a string is shorter than what was there before it, so the
  reading of the members terminates.\<close>

lemma push_Some: "push c x = Some (t, r) \<Longrightarrow> \<exists>t'. x = Some (t', r)"
  by (cases x) (auto simp: push_def)

lemma loads_chars_shorter: "loads_chars s = Some (t, r) \<Longrightarrow> length r < length s"
proof (induction s arbitrary: t rule: loads_chars.induct)
  case 1
  then show ?case by simp
next
  case (2 c cs)
  show ?case
  proof (cases "c = QUOTE")
    case True
    then show ?thesis using "2.prems" by simp
  next
    case nq: False
    show ?thesis
    proof (cases "c = BSLASH")
      case False
      then have "push c (loads_chars cs) = Some (t, r)" and "\<not> (of_char c :: nat) < 32"
        using "2.prems" nq by (auto split: if_splits)
      then obtain t' where "loads_chars cs = Some (t', r)" and "\<not> (of_char c :: nat) < 32"
        using push_Some by blast
      then have "length r < length cs"
        using "2.IH"(3) [OF nq False] by blast
      then show ?thesis by simp
    next
      case True
      show ?thesis
      proof (cases cs)
        case Nil
        then show ?thesis using "2.prems" nq True by simp
      next
        case (Cons e r0)
        show ?thesis
        proof (cases "e = CHR ''u''")
          case False
          then obtain ch where ch: "unescape e = Some ch" and
            "push ch (loads_chars r0) = Some (t, r)"
            using "2.prems" nq True Cons by (auto split: option.splits)
          then obtain t' where "loads_chars r0 = Some (t', r)"
            using push_Some by blast
          then have "length r < length r0"
            using "2.IH"(2) [OF nq True Cons False ch] by blast
          then show ?thesis using Cons by simp
        next
          case u: True
          then obtain a b c' d r' n where r0: "r0 = a # b # c' # d # r'" and
            n: "hex4 a b c' d = Some n" "n < 256" and
            "push (char_of n) (loads_chars r') = Some (t, r)"
            using "2.prems" nq True Cons
            by (auto split: list.splits option.splits if_splits)
          then obtain t' where "loads_chars r' = Some (t', r)"
            using push_Some by blast
          then have "length r < length r'"
            using "2.IH"(1) [OF nq True Cons u r0 _ _ _ n] by blast
          then show ?thesis using Cons r0 by simp
        qed
      qed
    qed
  qed
qed

lemma skip_ws_length: "length (skip_ws s) \<le> length s"
  by (simp add: skip_ws_def length_dropWhile_le)

lemma expect_shorter: "expect ch s = Some r \<Longrightarrow> length r < length s"
proof -
  assume a: "expect ch s = Some r"
  then obtain c where "skip_ws s = c # r"
    by (auto simp: expect_def split: list.splits if_splits)
  then have "length r < length (skip_ws s)" by simp
  then show ?thesis using skip_ws_length [of s] by simp
qed

lemma loads_quoted_shorter: "loads_quoted s = Some (t, r) \<Longrightarrow> length r < length s"
proof -
  assume "loads_quoted s = Some (t, r)"
  then obtain r0 where "expect QUOTE s = Some r0" "loads_chars r0 = Some (t, r)"
    by (auto simp: loads_quoted_def split: option.splits)
  then show ?thesis
    using expect_shorter [of QUOTE s r0] loads_chars_shorter [of r0 t r] by simp
qed

lemma loads_member_shorter: "loads_member s = Some (kv, r) \<Longrightarrow> length r < length s"
proof -
  assume "loads_member s = Some (kv, r)"
  then obtain k r1 r2 v where "loads_quoted s = Some (k, r1)" "expect (CHR '':'') r1 = Some r2"
    "loads_quoted r2 = Some (v, r)"
    by (auto simp: loads_member_def split: option.splits prod.splits)
  then show ?thesis
    using loads_quoted_shorter [of s k r1] expect_shorter [of "CHR '':''" r1 r2]
      loads_quoted_shorter [of r2 v r] by simp
qed

termination loads_members
proof (relation "measure length")
  show "wf (measure length)" by simp
next
  fix s :: string and x2 x y and r :: string and c r'
  assume "loads_member s = Some x2" "(x, y) = x2" "skip_ws y = c # r'"
  then have "length y < length s" "length r' < length (skip_ws y)"
    using loads_member_shorter [of s x y] by simp_all
  then show "(r', s) \<in> measure length"
    using skip_ws_length [of y] by simp
qed

declare loads_members.simps [simp del]

section \<open>Properties of log retrieval\<close>

lemma last100_suffix: "suffix (last100 xs) xs"
  by (simp add: last100_def suffix_drop)

lemma last100_length: "length (last100 xs) = min 100 (length xs)"
  by (simp add: last100_def)

text \<open>
  Claim C4. \<open>retrieve_logs\<close> answers 404 exactly when the log file does not exist.
  Otherwise it answers 200 with the last lines of the file in the file's order (a suffix
  of \<open>readlines\<close>): all of them when there are at most 100, and 100 of them when
  there are more; \<open>count\<close> is their number.
\<close>

theorem retrieve_logs_window:
  "(status (retrieve_logs w) = 404 \<longleftrightarrow> log_file w = None) \<and>
   (\<forall>data. log_file w = Some data \<longrightarrow>
      (\<exists>logs. retrieve_logs w =
                 \<lparr>status = 200,
                  body = JObj [(''logs'', JArr (map JStr logs)),
                               (''count'', JInt (int (length logs)))]\<rparr> \<and>
              suffix logs (readlines data) \<and>
              length logs = min 100 (length (readlines data))))"
proof (cases "log_file w")
  case None
  then show ?thesis by (simp add: retrieve_logs_def)
next
  case (Some data)
  have "suffix (last100 (readlines data)) (readlines data)"
    by (rule last100_suffix)
  moreover have "length (last100 (readlines data)) = min 100 (length (readlines data))"
    by (rule last100_length)
  ultimately show ?thesis
    using Some by (auto simp: retrieve_logs_def Let_def)
qed

theorem retrieve_logs_window_witness:
  "status (retrieve_logs \<lparr>memory = init_db None, log_file = None\<rparr>) = 404 \<and>
   (\<exists>logs. retrieve_logs \<lparr>memory = init_db None, log_file = Some (''a'' @ [LF] @ ''b'' @ [LF])\<rparr> =
             \<lparr>status = 200,
              body = JObj [(''logs'', JArr (map JStr logs)), (''count'', JInt (int (length logs)))]\<rparr> \<and>
           suffix logs (readlines (''a'' @ [LF] @ ''b'' @ [LF])) \<and>
           length logs = min 100 (length (readlines (''a'' @ [LF] @ ''b'' @ [LF]))))"
  using retrieve_logs_window [of "\<lparr>memory = init_db None, log_file = None\<rparr>"]
        retrieve_logs_window [of "\<lparr>memory = init_db None, log_file = Some (''a'' @ [LF] @ ''b'' @ [LF])\<rparr>"]
  by simp

section \<open>Properties of the authentication gate\<close>

text \<open>
  Claim C2. Whatever the route (the one that hands out the key included), a request whose
  \<open>X-API-KEY\<close> header is missing or is not the secret gets the 401 response
  \<open>{"error": "Unauthorized"}\<close> and the world stays as it was: no view runs. A
  request whose header is the secret gets what the view of its route does.
\<close>

theorem auth_gate:
  "(x_api_key req \<noteq> Some secret \<longrightarrow>
      handle_request secret env req w =
        (Inr \<lparr>status = 401, body = JObj [(''error'', JStr ''Unauthorized'')]\<rparr>, w)) \<and>
   (x_api_key req = Some secret \<longrightarrow>
      handle_request secret env req w = view secret env (target req) w)"
  by (simp add: handle_request_def authenticate_def)

theorem auth_gate_witness:
  "handle_request ''5f2c'' \<lparr>row_now = ''t0'', log_answers = \<lparr>now = ''t1'', fault = None\<rparr>\<rparr>
     \<lparr>x_api_key = None, target = GetApiKey\<rparr> \<lparr>memory = init_db None, log_file = None\<rparr> =
     (Inr \<lparr>status = 401, body = JObj [(''error'', JStr ''Unauthorized'')]\<rparr>,
      \<lparr>memory = init_db None, log_file = None\<rparr>) \<and>
   handle_request ''5f2c'' \<lparr>row_now = ''t0'', log_answers = \<lparr>now = ''t1'', fault = None\<rparr>\<rparr>
     \<lparr>x_api_key = Some ''5f2c'', target = GetApiKey\<rparr> \<lparr>memory = init_db None, log_file = None\<rparr> =
     (Inr \<lparr>status = 200, body = JObj [(''api_key'', JStr ''5f2c'')]\<rparr>,
      \<lparr>memory = init_db None, log_file = None\<rparr>)"
  using auth_gate [of "\<lparr>x_api_key = None, target = GetApiKey\<rparr>" "''5f2c''"
                      "\<lparr>row_now = ''t0'', log_answers = \<lparr>now = ''t1'', fault = None\<rparr>\<rparr>"
                      "\<lparr>memory = init_db None, log_file = None\<rparr>"]
        auth_gate [of "\<lparr>x_api_key = Some ''5f2c'', target = GetApiKey\<rparr>" "''5f2c''"
                      "\<lparr>row_now = ''t0'', log_answers = \<lparr>now = ''t1'', fault = None\<rparr>\<rparr>"
                      "\<lparr>memory = init_db None, log_file = None\<rparr>"]
  by (simp add: view_def get_api_key_def)

text \<open>
  Claim C8. A request rejected by the gate changes nothing: the world after it is the
  world before it; in particular no line is added to the log file and the memory table
  is the same.
\<close>

theorem rejection_leaves_world:
  assumes "x_api_key req \<noteq> Some secret"
  shows "snd (handle_request secret env req w) = w \<and>
         log_file (snd (handle_request secret env req w)) = log_file w \<and>
         memory (snd (handle_request secret env req w)) = memory w"
  using assms by (simp add: handle_request_def authenticate_def)

theorem rejection_leaves_world_witness:
  "snd (handle_request ''5f2c'' \<lparr>row_now = ''t0'', log_answers = \<lparr>now = ''t1'', fault = None\<rparr>\<rparr>
         \<lparr>x_api_key = Some ''guess'', target = MemoryAdd (JObj [(''content'', JStr ''hello'')])\<rparr>
         \<lparr>memory = init_db None, log_file = None\<rparr>) =
     \<lparr>memory = init_db None, log_file = None\<rparr>"
  using rejection_leaves_world [of "\<lparr>x_api_key = Some ''guess'',
                                      target = MemoryAdd (JObj [(''content'', JStr ''hello'')])\<rparr>"
          "''5f2c''" "\<lparr>row_now = ''t0'', log_answers = \<lparr>now = ''t1'', fault = None\<rparr>\<rparr>"
          "\<lparr>memory = init_db None, log_file = None\<rparr>"]
  by simp

section \<open>Properties of adding an entry\<close>

lemma strip_empty_iff: "strip s = [] \<longleftrightarrow> (\<forall>c\<in>set s. isspace c)"
proof
  assume "strip s = []"
  then have "dropWhile isspace (rev (dropWhile isspace s)) = []"
    by (simp add: strip_def)
  then have all: "\<forall>c\<in>set (dropWhile isspace s). isspace c"
    by (simp add: dropWhile_eq_Nil_conv)
  have "dropWhile isspace s = []"
  proof (rule ccontr)
    assume ne: "dropWhile isspace s \<noteq> []"
    then have "\<not> isspace (hd (dropWhile isspace s))"
      by (rule hd_dropWhile)
    moreover have "hd (dropWhile isspace s) \<in> set (dropWhile isspace s)"
      using ne by simp
    ultimately show False using all by blast
  qed
  then show "\<forall>c\<in>set s. isspace c"
    by (simp add: dropWhile_eq_Nil_conv)
next
  assume "\<forall>c\<in>set s. isspace c"
  then have d: "dropWhile isspace s = []"
    by (induction s) simp_all
  show "strip s = []"
    unfolding strip_def d by simp
qed

text \<open>
  Claim C3. When the content of an add request is missing, empty or made of whitespace
  only, \<open>api_add_memory\<close> answers 400 with status \<open>Error\<close> and message
  \<open>Content cannot be empty\<close>, and the world (the memory table and the log file) is
  unchanged. The payload is \<open>request.json or {}\<close>; the content is its
  \<open>content\<close> entry, the empty string when there is none.
\<close>

theorem empty_content_rejected:
  assumes "(if truthy req_json then req_json else JObj []) = JObj payload"
    and "dict_get payload ''content'' (JStr []) = JStr s"
    and "\<forall>c\<in>set s. isspace c"
  shows "api_add_memory env req_json w =
           (Inr \<lparr>status = 400,
                 body = JObj [(''status'', JStr ''Error''),
                              (''message'', JStr ''Content cannot be empty'')]\<rparr>, w)"
proof -
  have "strip s = []"
    using assms(3) by (simp add: strip_empty_iff)
  then show ?thesis
    using assms(1,2) by (simp add: api_add_memory_def Let_def)
qed

theorem empty_content_rejected_witness:
  "api_add_memory \<lparr>row_now = ''t0'', log_answers = \<lparr>now = ''t1'', fault = None\<rparr>\<rparr>
     (JObj [(''content'', JStr ''   '')]) \<lparr>memory = init_db None, log_file = None\<rparr> =
   (Inr \<lparr>status = 400,
         body = JObj [(''status'', JStr ''Error''),
                      (''message'', JStr ''Content cannot be empty'')]\<rparr>,
    \<lparr>memory = init_db None, log_file = None\<rparr>)"
  using empty_content_rejected [of "JObj [(''content'', JStr ''   '')]"
          "[(''content'', JStr ''   '')]" "''   ''"
          "\<lparr>row_now = ''t0'', log_answers = \<lparr>now = ''t1'', fault = None\<rparr>\<rparr>"
          "\<lparr>memory = init_db None, log_file = None\<rparr>"]
  by (simp add: dict_get_def isspace_def)

text \<open>
  Claim C10. When the content of an add request has a character that is not whitespace,
  the row that is inserted holds the content exactly as it was sent, leading and
  trailing whitespace included: \<open>strip\<close> is used for the emptiness test only. The
  insert goes through when the category can be bound and the key space is not used up;
  the row is then appended whether or not the log line can be written afterwards.
\<close>

theorem content_stored_verbatim:
  assumes "(if truthy req_json then req_json else JObj []) = JObj payload"
    and "dict_get payload ''content'' (JStr []) = JStr s"
    and "\<exists>c\<in>set s. \<not> isspace c"
    and "bind_param (dict_get payload ''category'' (JStr ''General'')) = Inr cat"
    and "largest_id (memory w) < MAX_ROWID"
  shows "rows (memory (snd (api_add_memory env req_json w))) =
           rows (memory w) @ [\<lparr>row_id = largest_id (memory w) + 1, timestamp = row_now env,
                                category = cat, content = s\<rparr>]"
proof -
  have ne: "strip s \<noteq> []"
    using assms(3) by (simp add: strip_empty_iff)
  have ins: "insert_row (row_now env) cat s (memory w) =
               Inr \<lparr>rows = rows (memory w) @ [\<lparr>row_id = largest_id (memory w) + 1,
                       timestamp = row_now env, category = cat, content = s\<rparr>],
                    seq = largest_id (memory w) + 1\<rparr>"
    using assms(5) by (simp add: insert_row_def Let_def)
  show ?thesis
    using assms(1,2,4) ne ins
    by (simp add: api_add_memory_def add_memory_entry_def log_event_def Let_def
             split: option.split sum.split)
qed

theorem content_stored_verbatim_witness:
  "rows (memory (snd (api_add_memory
       \<lparr>row_now = ''t0'', log_answers = \<lparr>now = ''t1'', fault = None\<rparr>\<rparr>
       (JObj [(''category'', JStr ''test''), (''content'', JStr ''  hello world  '')])
       \<lparr>memory = init_db None, log_file = None\<rparr>))) =
   [\<lparr>row_id = 1, timestamp = ''t0'', category = SqlText ''test'',
     content = ''  hello world  ''\<rparr>]"
  using content_stored_verbatim [of "JObj [(''category'', JStr ''test''), (''content'', JStr ''  hello world  '')]"
          "[(''category'', JStr ''test''), (''content'', JStr ''  hello world  '')]"
          "''  hello world  ''" "SqlText ''test''"
          "\<lparr>memory = init_db None, log_file = None\<rparr>"
          "\<lparr>row_now = ''t0'', log_answers = \<lparr>now = ''t1'', fault = None\<rparr>\<rparr>"]
  by (simp add: dict_get_def isspace_def largest_id_def init_db_def MAX_ROWID_def)

lemmas run_defs =
  api_add_memory_def add_memory_entry_def insert_row_def log_event_def calm_def
  first_start_def init_db_def dict_get_def strip_def isspace_def largest_id_def
  MAX_ROWID_def Let_def handle_request_def authenticate_def view_def restart_def

section \<open>Properties of the search\<close>

lemma like_percent_skip: "like_match ps s \<Longrightarrow> like_match (CHR ''%'' # ps) s"
  by (cases s) simp_all

lemma like_percent_drop: "like_match ps s \<Longrightarrow> like_match (CHR ''%'' # ps) (pre @ s)"
proof (induction pre)
  case Nil
  then show ?case by (simp add: like_percent_skip)
next
  case (Cons c pre)
  then show ?case by simp
qed

lemma like_percent_all: "like_match ''%'' s"
  by (induction s) simp_all

lemma like_self_prefix: "like_match (kw @ ''%'') (kw @ post)"
proof (induction kw)
  case Nil
  show ?case using like_percent_all by simp
next
  case (Cons k kw)
  show ?case
  proof (cases "k = CHR ''%''")
    case True
    have "like_match (CHR ''%'' # kw @ ''%'') (kw @ post)"
      using Cons.IH by (rule like_percent_skip)
    then show ?thesis using True by simp
  next
    case False
    then show ?thesis using Cons.IH by simp
  qed
qed

lemma like_substring:
  assumes "sublist kw s"
  shows "like_match (CHR ''%'' # kw @ ''%'') s"
proof -
  from assms obtain pre post where "s = pre @ kw @ post"
    by (auto simp: sublist_def)
  then show ?thesis
    using like_percent_drop [OF like_self_prefix [of kw post], of pre] by simp
qed

lemma like_percent_iff:
  "like_match (CHR ''%'' # ps) s \<longleftrightarrow> (\<exists>pre t. s = pre @ t \<and> like_match ps t)"
proof (induction s)
  case Nil
  then show ?case by simp
next
  case (Cons c s)
  show ?case
  proof
    assume "like_match (CHR ''%'' # ps) (c # s)"
    then consider "like_match ps (c # s)" | "like_match (CHR ''%'' # ps) s" by auto
    then show "\<exists>pre t. c # s = pre @ t \<and> like_match ps t"
    proof cases
      case 1
      then have "c # s = [] @ (c # s) \<and> like_match ps (c # s)" by simp
      then show ?thesis by blast
    next
      case 2
      then obtain pre t where "s = pre @ t" "like_match ps t" using Cons.IH by blast
      then have "c # s = (c # pre) @ t \<and> like_match ps t" by simp
      then show ?thesis by blast
    qed
  next
    assume "\<exists>pre t. c # s = pre @ t \<and> like_match ps t"
    then obtain pre t where "c # s = pre @ t" "like_match ps t" by blast
    then show "like_match (CHR ''%'' # ps) (c # s)"
      using like_percent_drop [of ps t pre] by simp
  qed
qed

lemma like_plain_iff:
  assumes "CHR ''%'' \<notin> set kw" and "CHR ''_'' \<notin> set kw"
  shows "like_match (kw @ ''%'') t \<longleftrightarrow>
         (\<exists>mid post. t = mid @ post \<and> map like_fold mid = map like_fold kw)"
  using assms
proof (induction kw arbitrary: t)
  case Nil
  show ?case using like_percent_all by simp
next
  case (Cons k kw)
  show ?case
  proof (cases t)
    case Nil
    then show ?thesis using Cons.prems by auto
  next
    case (Cons c t')
    have ih: "like_match (kw @ ''%'') t' \<longleftrightarrow>
              (\<exists>mid post. t' = mid @ post \<and> map like_fold mid = map like_fold kw)"
      using Cons.IH Cons.prems by simp
    have "like_match ((k # kw) @ ''%'') (c # t') \<longleftrightarrow>
          like_fold k = like_fold c \<and> like_match (kw @ ''%'') t'"
      using Cons.prems by auto
    also have "\<dots> \<longleftrightarrow> (\<exists>mid post. c # t' = mid @ post \<and> map like_fold mid = map like_fold (k # kw))"
    proof
      assume "like_fold k = like_fold c \<and> like_match (kw @ ''%'') t'"
      then obtain mid post where "like_fold k = like_fold c" "t' = mid @ post"
        "map like_fold mid = map like_fold kw" using ih by blast
      then have "c # t' = (c # mid) @ post \<and> map like_fold (c # mid) = map like_fold (k # kw)"
        by simp
      then show "\<exists>mid post. c # t' = mid @ post \<and> map like_fold mid = map like_fold (k # kw)"
        by blast
    next
      assume "\<exists>mid post. c # t' = mid @ post \<and> map like_fold mid = map like_fold (k # kw)"
      then obtain mid post where m: "c # t' = mid @ post" "map like_fold mid = map like_fold (k # kw)"
        by blast
      then obtain m0 mid' where "mid = m0 # mid'" by (cases mid) auto
      with m have "m0 = c" "t' = mid' @ post" "like_fold c = like_fold k"
        "map like_fold mid' = map like_fold kw" by auto
      then show "like_fold k = like_fold c \<and> like_match (kw @ ''%'') t'"
        using ih by auto
    qed
    finally show ?thesis using Cons by simp
  qed
qed

lemma like_plain_substring:
  assumes "CHR ''%'' \<notin> set kw" and "CHR ''_'' \<notin> set kw"
  shows "like_match (CHR ''%'' # kw @ ''%'') s \<longleftrightarrow>
         sublist (map like_fold kw) (map like_fold s)"
proof
  assume "like_match (CHR ''%'' # kw @ ''%'') s"
  then obtain pre t where "s = pre @ t" "like_match (kw @ ''%'') t"
    using like_percent_iff by blast
  moreover then obtain mid post where "t = mid @ post" "map like_fold mid = map like_fold kw"
    using like_plain_iff [OF assms] by blast
  ultimately have "map like_fold s = map like_fold pre @ map like_fold kw @ map like_fold post"
    by simp
  then show "sublist (map like_fold kw) (map like_fold s)"
    unfolding sublist_def by blast
next
  assume "sublist (map like_fold kw) (map like_fold s)"
  then obtain ps ss where eq: "map like_fold s = ps @ map like_fold kw @ ss"
    unfolding sublist_def by blast
  then have "\<exists>us vs. s = us @ vs \<and> ps = map like_fold us \<and>
                  map like_fold kw @ ss = map like_fold vs"
    by (simp only: map_eq_append_conv)
  then obtain pre r where s1: "s = pre @ r" "map like_fold r = map like_fold kw @ ss"
    by auto
  then have "\<exists>us vs. r = us @ vs \<and> map like_fold kw = map like_fold us \<and>
                  ss = map like_fold vs"
    by (simp only: map_eq_append_conv)
  then obtain mid post where s2: "r = mid @ post" "map like_fold mid = map like_fold kw"
    by auto
  have "like_match (kw @ ''%'') r"
    using like_plain_iff [OF assms] s2 by blast
  then show "like_match (CHR ''%'' # kw @ ''%'') s"
    using like_percent_iff s1 by blast
qed

lemma c_string_id: "NUL \<notin> set s \<Longrightarrow> c_string s = s"
  by (auto simp: c_string_def takeWhile_eq_all_conv)

lemma c_string_no_nul: "NUL \<notin> set (c_string s)"
  unfolding c_string_def using set_takeWhileD [of NUL "\<lambda>c. c \<noteq> NUL" s] by blast

lemma sublist_no_nul:
  assumes "sublist kw (c_string s)"
  shows "NUL \<notin> set kw"
proof -
  have "set kw \<subseteq> set (c_string s)"
    using assms by (rule set_mono_sublist)
  then show ?thesis
    using c_string_no_nul [of s] by blast
qed

lemma search_rows_within:
  assumes "utf8_length (CHR ''%'' # kw @ ''%'') \<le> SQLITE_MAX_LIKE_PATTERN_LENGTH"
  shows "search_rows kw rs =
           Inr (filter (\<lambda>r. like_match (c_string (CHR ''%'' # kw @ ''%'')) (c_string (content r))) rs)"
proof (induction rs)
  case Nil
  show ?case by simp
next
  case (Cons r rs)
  have "sql_like (CHR ''%'' # kw @ ''%'') (content r) =
          Inr (like_match (c_string (CHR ''%'' # kw @ ''%'')) (c_string (content r)))"
    using assms by (simp add: sql_like_def)
  then show ?case
    using Cons.IH by simp
qed

lemma search_rows_beyond:
  assumes "SQLITE_MAX_LIKE_PATTERN_LENGTH < utf8_length (CHR ''%'' # kw @ ''%'')"
  shows "search_rows kw (r # rs) = Inl OperationalError"
  using assms by (simp add: sql_like_def)

lemma add_memory_entry_ok:
  assumes "add_memory_entry ts env cat s w = (Inr u, w')"
  shows "\<exists>c. bind_param cat = Inr c \<and>
             rows (memory w') = rows (memory w) @
               [\<lparr>row_id = largest_id (memory w) + 1, timestamp = ts, category = c, content = s\<rparr>]"
proof (cases "bind_param cat")
  case (Inl e)
  then show ?thesis using assms by (simp add: add_memory_entry_def)
next
  case (Inr c)
  show ?thesis
  proof (cases "insert_row ts c s (memory w)")
    case (Inl e)
    then show ?thesis using assms Inr by (simp add: add_memory_entry_def)
  next
    case ins: (Inr t)
    then have t: "rows t = rows (memory w) @
        [\<lparr>row_id = largest_id (memory w) + 1, timestamp = ts, category = c, content = s\<rparr>]"
      by (auto simp: insert_row_def Let_def split: if_splits)
    have "fault env = None"
      using assms Inr ins
      by (cases "fault env") (simp_all add: add_memory_entry_def log_event_def Let_def)
    then have "memory w' = t"
      using assms Inr ins by (auto simp: add_memory_entry_def log_event_def Let_def)
    then show ?thesis using Inr t by simp
  qed
qed

lemma api_add_memory_ok:
  assumes "(if truthy req_json then req_json else JObj []) = JObj payload"
    and "dict_get payload ''content'' (JStr []) = JStr s"
    and "api_add_memory env req_json w = (Inr resp, w')"
    and "status resp = 200"
  shows "s \<noteq> [] \<and>
         (\<exists>u. add_memory_entry (row_now env) (log_answers env)
                (dict_get payload ''category'' (JStr ''General'')) s w = (Inr u, w'))"
proof -
  have ne: "strip s \<noteq> []"
    using assms by (auto simp: api_add_memory_def Let_def split: if_splits)
  then have "s \<noteq> []"
    by (auto simp: strip_def)
  moreover have "\<exists>u. add_memory_entry (row_now env) (log_answers env)
                (dict_get payload ''category'' (JStr ''General'')) s w = (Inr u, w')"
    using assms ne
    by (auto simp: api_add_memory_def Let_def split: if_splits sum.splits prod.splits)
  ultimately show ?thesis by blast
qed

text \<open>
  Claim C1, as stated, fails. The stored content \<open>a\0b\<close> (a NUL between the letters)
  contains \<open>b\<close>, but \<open>LIKE\<close> reads it as the C string \<open>a\<close> and the search for \<open>b\<close>
  returns no match. And a stored content of 49999 letters, searched for as a whole,
  makes a pattern of 50001 bytes: the query raises and the handler returns no matches
  at all.
\<close>

theorem added_entry_counterexample:
  "fst (api_add_memory (calm ''t0'' ''t1'')
          (JObj [(''content'', JStr [CHR ''a'', NUL, CHR ''b''])]) first_start) =
     Inr \<lparr>status = 200,
          body = JObj [(''status'', JStr ''Success''), (''message'', JStr ''Memory entry added.'')]\<rparr> \<and>
   sublist ''b'' [CHR ''a'', NUL, CHR ''b''] \<and>
   api_memory_search ''b''
     (snd (api_add_memory (calm ''t0'' ''t1'')
             (JObj [(''content'', JStr [CHR ''a'', NUL, CHR ''b''])]) first_start)) =
     Inr \<lparr>status = 200, body = JObj [(''matches'', JArr []), (''count'', JInt 0)]\<rparr> \<and>
   sublist (replicate 49999 (CHR ''a'')) (replicate 49999 (CHR ''a'')) \<and>
   api_memory_search (replicate 49999 (CHR ''a''))
     \<lparr>memory = \<lparr>rows = [\<lparr>row_id = 1, timestamp = ''t0'', category = SqlText ''General'',
                          content = replicate 49999 (CHR ''a'')\<rparr>], seq = 1\<rparr>,
      log_file = None\<rparr> = Inl OperationalError"
proof -
  have a: "fst (api_add_memory (calm ''t0'' ''t1'')
          (JObj [(''content'', JStr [CHR ''a'', NUL, CHR ''b''])]) first_start) =
     Inr \<lparr>status = 200,
          body = JObj [(''status'', JStr ''Success''), (''message'', JStr ''Memory entry added.'')]\<rparr>"
    by (simp add: run_defs)
  have b: "sublist ''b'' [CHR ''a'', NUL, CHR ''b'']"
    by code_simp
  have c: "api_memory_search ''b''
     (snd (api_add_memory (calm ''t0'' ''t1'')
             (JObj [(''content'', JStr [CHR ''a'', NUL, CHR ''b''])]) first_start)) =
     Inr \<lparr>status = 200, body = JObj [(''matches'', JArr []), (''count'', JInt 0)]\<rparr>"
    by (simp add: run_defs api_memory_search_def sql_like_def c_string_def utf8_length_def
          SQLITE_MAX_LIKE_PATTERN_LENGTH_def like_fold_def)
  have d: "sublist (replicate 49999 (CHR ''a'')) (replicate 49999 (CHR ''a''))"
    by simp
  have "SQLITE_MAX_LIKE_PATTERN_LENGTH <
          utf8_length (CHR ''%'' # replicate 49999 (CHR ''a'') @ ''%'')"
    by (simp add: utf8_length_def SQLITE_MAX_LIKE_PATTERN_LENGTH_def)
  then have e: "api_memory_search (replicate 49999 (CHR ''a''))
     \<lparr>memory = \<lparr>rows = [\<lparr>row_id = 1, timestamp = ''t0'', category = SqlText ''General'',
                          content = replicate 49999 (CHR ''a'')\<rparr>], seq = 1\<rparr>,
      log_file = None\<rparr> = Inl OperationalError"
    by (simp add: api_memory_search_def search_rows_beyond del: search_rows.simps)
  show ?thesis
    using a b c d e by blast
qed

text \<open>
  Claim C1, amended. After an add that answered 200 for a request with category and
  content \<open>s\<close>, the table has one more row, with the clock reading, the bound category
  and \<open>s\<close>. For every \<open>kw\<close> that occurs as a contiguous piece in \<open>s\<close> before the first
  NUL of \<open>s\<close> (anywhere in \<open>s\<close>, when it has none), and whose pattern
  \<open>'%' + kw + '%'\<close> is no longer than 50000 bytes, the search for \<open>kw\<close> answers 200 with
  a list of matches and their count, and the list contains the match with the timestamp,
  the category and the content of that row.
\<close>

theorem added_entry_is_found:
  assumes "(if truthy req_json then req_json else JObj []) = JObj payload"
    and "dict_get payload ''content'' (JStr []) = JStr s"
    and "api_add_memory env req_json w = (Inr resp, w')"
    and "status resp = 200"
    and "sublist kw (c_string s)"
    and "utf8_length (CHR ''%'' # kw @ ''%'') \<le> SQLITE_MAX_LIKE_PATTERN_LENGTH"
  shows "\<exists>c ms. bind_param (dict_get payload ''category'' (JStr ''General'')) = Inr c \<and>
                rows (memory w') = rows (memory w) @
                  [\<lparr>row_id = largest_id (memory w) + 1, timestamp = row_now env,
                    category = c, content = s\<rparr>] \<and>
                api_memory_search kw w' =
                  Inr \<lparr>status = 200,
                       body = JObj [(''matches'', JArr ms), (''count'', JInt (int (length ms)))]\<rparr> \<and>
                JObj [(''timestamp'', JStr (row_now env)),
                      (''category'', (case c of SqlNull \<Rightarrow> JNull | SqlText t \<Rightarrow> JStr t)),
                      (''content'', JStr s)] \<in> set ms"
proof -
  from api_add_memory_ok [OF assms(1-4)] obtain u where
    "add_memory_entry (row_now env) (log_answers env)
       (dict_get payload ''category'' (JStr ''General'')) s w = (Inr u, w')"
    by blast
  from add_memory_entry_ok [OF this] obtain c where
    c: "bind_param (dict_get payload ''category'' (JStr ''General'')) = Inr c" and
    rs: "rows (memory w') = rows (memory w) @
           [\<lparr>row_id = largest_id (memory w) + 1, timestamp = row_now env,
             category = c, content = s\<rparr>]"
    by blast
  let ?r = "\<lparr>row_id = largest_id (memory w) + 1, timestamp = row_now env,
             category = c, content = s\<rparr>"
  let ?found = "filter (\<lambda>r. like_match (c_string (CHR ''%'' # kw @ ''%'')) (c_string (content r)))
                  (rows (memory w'))"
  let ?ms = "map match_json ?found"
  have "NUL \<notin> set (CHR ''%'' # kw @ ''%'')"
    using sublist_no_nul [OF assms(5)] by simp
  then have pat: "c_string (CHR ''%'' # kw @ ''%'') = CHR ''%'' # kw @ ''%''"
    by (rule c_string_id)
  have "like_match (CHR ''%'' # kw @ ''%'') (c_string s)"
    using assms(5) by (rule like_substring)
  then have "?r \<in> set ?found"
    using rs pat by simp
  then have "match_json ?r \<in> set ?ms"
    by simp
  then have hit: "JObj [(''timestamp'', JStr (row_now env)),
                      (''category'', (case c of SqlNull \<Rightarrow> JNull | SqlText t \<Rightarrow> JStr t)),
                      (''content'', JStr s)] \<in> set ?ms"
    by (simp add: match_json_def sql_json_def)
  have "api_memory_search kw w' =
      Inr \<lparr>status = 200, body = JObj [(''matches'', JArr ?ms), (''count'', JInt (int (length ?ms)))]\<rparr>"
    by (simp add: api_memory_search_def search_rows_within [OF assms(6)] Let_def)
  then show ?thesis
    using c rs hit by blast
qed

lemmas search_eval =
  api_memory_search_def sql_like_def c_string_def utf8_length_def
  SQLITE_MAX_LIKE_PATTERN_LENGTH_def match_json_def sql_json_def


theorem added_entry_is_found_witness:
  "api_add_memory (calm ''t0'' ''t1'')
     (JObj [(''category'', JStr ''test''), (''content'', JStr ''hello world'')]) first_start =
     (Inr \<lparr>status = 200,
           body = JObj [(''status'', JStr ''Success''), (''message'', JStr ''Memory entry added.'')]\<rparr>,
      snd (api_add_memory (calm ''t0'' ''t1'')
             (JObj [(''category'', JStr ''test''), (''content'', JStr ''hello world'')]) first_start)) \<and>
   sublist ''hello'' (c_string ''hello world'') \<and>
   (\<exists>ms. rows (memory (snd (api_add_memory (calm ''t0'' ''t1'')
               (JObj [(''category'', JStr ''test''), (''content'', JStr ''hello world'')]) first_start))) =
             [\<lparr>row_id = 1, timestamp = ''t0'', category = SqlText ''test'',
               content = ''hello world''\<rparr>] \<and>
          api_memory_search ''hello'' (snd (api_add_memory (calm ''t0'' ''t1'')
               (JObj [(''category'', JStr ''test''), (''content'', JStr ''hello world'')]) first_start)) =
             Inr \<lparr>status = 200,
                  body = JObj [(''matches'', JArr ms), (''count'', JInt (int (length ms)))]\<rparr> \<and>
          JObj [(''timestamp'', JStr ''t0''), (''category'', JStr ''test''),
                (''content'', JStr ''hello world'')] \<in> set ms)"
proof -
  let ?j = "JObj [(''category'', JStr ''test''), (''content'', JStr ''hello world'')]"
  let ?p = "[(''category'', JStr ''test''), (''content'', JStr ''hello world'')]"
  let ?resp = "\<lparr>status = 200,
           body = JObj [(''status'', JStr ''Success''), (''message'', JStr ''Memory entry added.'')]\<rparr>"
  have h1: "(if truthy ?j then ?j else JObj []) = JObj ?p" by simp
  have h2: "dict_get ?p ''content'' (JStr []) = JStr ''hello world''"
    by (simp add: dict_get_def)
  have "fst (api_add_memory (calm ''t0'' ''t1'') ?j first_start) = Inr ?resp"
    by (simp add: run_defs)
  then have h3: "api_add_memory (calm ''t0'' ''t1'') ?j first_start =
      (Inr ?resp, snd (api_add_memory (calm ''t0'' ''t1'') ?j first_start))"
    by (simp add: prod_eq_iff)
  have h4: "status ?resp = 200" by simp
  have "c_string ''hello world'' = ''hello world''"
    by (simp add: c_string_def)
  moreover have "sublist ''hello'' ''hello world''"
    by code_simp
  ultimately have h5: "sublist ''hello'' (c_string ''hello world'')"
    by simp
  have h6: "utf8_length (CHR ''%'' # ''hello'' @ ''%'') \<le> SQLITE_MAX_LIKE_PATTERN_LENGTH"
    by (simp add: utf8_length_def SQLITE_MAX_LIKE_PATTERN_LENGTH_def)
  have cat: "dict_get ?p ''category'' (JStr ''General'') = JStr ''test''"
    by (simp add: dict_get_def)
  have fresh: "rows (memory first_start) = []" "largest_id (memory first_start) = 0"
    by (simp_all add: first_start_def init_db_def largest_id_def)
  from added_entry_is_found [OF h1 h2 h3 h4 h5 h6] obtain c ms where
    "bind_param (dict_get ?p ''category'' (JStr ''General'')) = Inr c"
    "rows (memory (snd (api_add_memory (calm ''t0'' ''t1'') ?j first_start))) =
       rows (memory first_start) @
         [\<lparr>row_id = largest_id (memory first_start) + 1, timestamp = row_now (calm ''t0'' ''t1''),
           category = c, content = ''hello world''\<rparr>]"
    "api_memory_search ''hello'' (snd (api_add_memory (calm ''t0'' ''t1'') ?j first_start)) =
       Inr \<lparr>status = 200,
            body = JObj [(''matches'', JArr ms), (''count'', JInt (int (length ms)))]\<rparr>"
    "JObj [(''timestamp'', JStr (row_now (calm ''t0'' ''t1''))),
           (''category'', (case c of SqlNull \<Rightarrow> JNull | SqlText t \<Rightarrow> JStr t)),
           (''content'', JStr ''hello world'')] \<in> set ms"
    by blast
  then have "rows (memory (snd (api_add_memory (calm ''t0'' ''t1'') ?j first_start))) =
             [\<lparr>row_id = 1, timestamp = ''t0'', category = SqlText ''test'',
               content = ''hello world''\<rparr>] \<and>
          api_memory_search ''hello'' (snd (api_add_memory (calm ''t0'' ''t1'') ?j first_start)) =
             Inr \<lparr>status = 200,
                  body = JObj [(''matches'', JArr ms), (''count'', JInt (int (length ms)))]\<rparr> \<and>
          JObj [(''timestamp'', JStr ''t0''), (''category'', JStr ''test''),
                (''content'', JStr ''hello world'')] \<in> set ms"
    by (auto simp: cat fresh calm_def)
  then show ?thesis
    using h3 h5 by blast
qed

text \<open>
  Claim C5, as stated, fails. \<open>LIKE\<close> compares ASCII letters without regard to case and
  reads \<open>%\<close> and \<open>_\<close> in the keyword as wildcards: neither \<open>HELLO\<close> nor \<open>h_llo\<close>
  occurs in \<open>hello world\<close>, and the search for either returns that entry. It ends the
  pattern at a NUL: \<open>a\0x\<close> does not occur in \<open>a\<close>, and the search for it returns that
  entry. And it refuses a pattern of more than 50000 bytes: on a table that has a row,
  the search for a keyword of 49999 letters that occurs in no entry raises.
\<close>

theorem search_like_counterexample:
  "\<not> sublist ''HELLO'' ''hello world'' \<and>
   \<not> sublist ''h_llo'' ''hello world'' \<and>
   api_memory_search ''HELLO''
     \<lparr>memory = \<lparr>rows = [\<lparr>row_id = 1, timestamp = ''t0'', category = SqlText ''test'',
                          content = ''hello world''\<rparr>], seq = 1\<rparr>, log_file = None\<rparr> =
   Inr \<lparr>status = 200,
        body = JObj [(''matches'', JArr [JObj [(''timestamp'', JStr ''t0''), (''category'', JStr ''test''),
                                              (''content'', JStr ''hello world'')]]),
                     (''count'', JInt 1)]\<rparr> \<and>
   api_memory_search ''h_llo''
     \<lparr>memory = \<lparr>rows = [\<lparr>row_id = 1, timestamp = ''t0'', category = SqlText ''test'',
                          content = ''hello world''\<rparr>], seq = 1\<rparr>, log_file = None\<rparr> =
   Inr \<lparr>status = 200,
        body = JObj [(''matches'', JArr [JObj [(''timestamp'', JStr ''t0''), (''category'', JStr ''test''),
                                              (''content'', JStr ''hello world'')]]),
                     (''count'', JInt 1)]\<rparr> \<and>
   \<not> sublist [CHR ''a'', NUL, CHR ''x''] ''a'' \<and>
   api_memory_search [CHR ''a'', NUL, CHR ''x'']
     \<lparr>memory = \<lparr>rows = [\<lparr>row_id = 1, timestamp = ''t0'', category = SqlText ''test'',
                          content = ''a''\<rparr>], seq = 1\<rparr>, log_file = None\<rparr> =
   Inr \<lparr>status = 200,
        body = JObj [(''matches'', JArr [JObj [(''timestamp'', JStr ''t0''), (''category'', JStr ''test''),
                                              (''content'', JStr ''a'')]]),
                     (''count'', JInt 1)]\<rparr> \<and>
   \<not> sublist (replicate 49999 (CHR ''k'')) ''hello world'' \<and>
   api_memory_search (replicate 49999 (CHR ''k''))
     \<lparr>memory = \<lparr>rows = [\<lparr>row_id = 1, timestamp = ''t0'', category = SqlText ''test'',
                          content = ''hello world''\<rparr>], seq = 1\<rparr>, log_file = None\<rparr> =
   Inl OperationalError"
proof -
  have a: "\<not> sublist ''HELLO'' ''hello world''" "\<not> sublist ''h_llo'' ''hello world''"
    "\<not> sublist [CHR ''a'', NUL, CHR ''x''] ''a''"
    by code_simp+
  have m: "like_match ''%HELLO%'' ''hello world''" "like_match ''%h_llo%'' ''hello world''"
    "like_match ''%a'' ''a''"
    by code_simp+
  have b: "api_memory_search ''HELLO''
     \<lparr>memory = \<lparr>rows = [\<lparr>row_id = 1, timestamp = ''t0'', category = SqlText ''test'',
                          content = ''hello world''\<rparr>], seq = 1\<rparr>, log_file = None\<rparr> =
   Inr \<lparr>status = 200,
        body = JObj [(''matches'', JArr [JObj [(''timestamp'', JStr ''t0''), (''category'', JStr ''test''),
                                              (''content'', JStr ''hello world'')]]),
                     (''count'', JInt 1)]\<rparr>"
    by (simp add: search_eval m del: like_match.simps)
  have c: "api_memory_search ''h_llo''
     \<lparr>memory = \<lparr>rows = [\<lparr>row_id = 1, timestamp = ''t0'', category = SqlText ''test'',
                          content = ''hello world''\<rparr>], seq = 1\<rparr>, log_file = None\<rparr> =
   Inr \<lparr>status = 200,
        body = JObj [(''matches'', JArr [JObj [(''timestamp'', JStr ''t0''), (''category'', JStr ''test''),
                                              (''content'', JStr ''hello world'')]]),
                     (''count'', JInt 1)]\<rparr>"
    by (simp add: search_eval m del: like_match.simps)
  have d: "api_memory_search [CHR ''a'', NUL, CHR ''x'']
     \<lparr>memory = \<lparr>rows = [\<lparr>row_id = 1, timestamp = ''t0'', category = SqlText ''test'',
                          content = ''a''\<rparr>], seq = 1\<rparr>, log_file = None\<rparr> =
   Inr \<lparr>status = 200,
        body = JObj [(''matches'', JArr [JObj [(''timestamp'', JStr ''t0''), (''category'', JStr ''test''),
                                              (''content'', JStr ''a'')]]),
                     (''count'', JInt 1)]\<rparr>"
    by (simp add: search_eval m del: like_match.simps)
  have "length ''hello world'' < length (replicate 49999 (CHR ''k''))"
    by simp
  then have e: "\<not> sublist (replicate 49999 (CHR ''k'')) ''hello world''"
    using sublist_length_le [of "replicate 49999 (CHR ''k'')" "''hello world''"] by linarith
  have "SQLITE_MAX_LIKE_PATTERN_LENGTH <
          utf8_length (CHR ''%'' # replicate 49999 (CHR ''k'') @ ''%'')"
    by (simp add: utf8_length_def SQLITE_MAX_LIKE_PATTERN_LENGTH_def)
  then have f: "api_memory_search (replicate 49999 (CHR ''k''))
     \<lparr>memory = \<lparr>rows = [\<lparr>row_id = 1, timestamp = ''t0'', category = SqlText ''test'',
                          content = ''hello world''\<rparr>], seq = 1\<rparr>, log_file = None\<rparr> =
   Inl OperationalError"
    by (simp add: api_memory_search_def search_rows_beyond del: search_rows.simps)
  show ?thesis
    using a b c d e f by blast
qed

text \<open>
  Claim C5, amended. For a keyword without \<open>%\<close>, \<open>_\<close> and NUL, whose pattern
  \<open>'%' + keyword + '%'\<close> is no longer than 50000 bytes, and that occurs in the content
  of no stored entry (the content up to its first NUL, ASCII letters compared without
  regard to case), the search answers 200 with an empty list of matches and count 0.
\<close>

theorem search_without_match:
  assumes "CHR ''%'' \<notin> set kw" and "CHR ''_'' \<notin> set kw" and "NUL \<notin> set kw"
    and "utf8_length (CHR ''%'' # kw @ ''%'') \<le> SQLITE_MAX_LIKE_PATTERN_LENGTH"
    and "\<forall>r\<in>set (rows (memory w)).
           \<not> sublist (map like_fold kw) (map like_fold (c_string (content r)))"
  shows "api_memory_search kw w =
           Inr \<lparr>status = 200, body = JObj [(''matches'', JArr []), (''count'', JInt 0)]\<rparr>"
proof -
  have "NUL \<notin> set (CHR ''%'' # kw @ ''%'')"
    using assms(3) by simp
  then have pat: "c_string (CHR ''%'' # kw @ ''%'') = CHR ''%'' # kw @ ''%''"
    by (rule c_string_id)
  have "\<forall>r\<in>set (rows (memory w)).
          \<not> like_match (CHR ''%'' # kw @ ''%'') (c_string (content r))"
    using assms(5) like_plain_substring [OF assms(1,2)] by blast
  then have "filter (\<lambda>r. like_match (c_string (CHR ''%'' # kw @ ''%'')) (c_string (content r)))
               (rows (memory w)) = []"
    by (simp add: pat filter_empty_conv)
  then show ?thesis
    by (simp add: api_memory_search_def search_rows_within [OF assms(4)])
qed

theorem search_without_match_witness:
  "api_memory_search ''xyz''
     \<lparr>memory = \<lparr>rows = [\<lparr>row_id = 1, timestamp = ''t0'', category = SqlText ''test'',
                          content = ''hello world''\<rparr>], seq = 1\<rparr>, log_file = None\<rparr> =
   Inr \<lparr>status = 200, body = JObj [(''matches'', JArr []), (''count'', JInt 0)]\<rparr>"
proof -
  have "c_string ''hello world'' = ''hello world''"
    by (simp add: c_string_def)
  moreover have "\<not> sublist (map like_fold ''xyz'') (map like_fold ''hello world'')"
    by code_simp
  moreover have "utf8_length (CHR ''%'' # ''xyz'' @ ''%'') \<le> SQLITE_MAX_LIKE_PATTERN_LENGTH"
    by (simp add: utf8_length_def SQLITE_MAX_LIKE_PATTERN_LENGTH_def)
  ultimately show ?thesis
    using search_without_match [of "''xyz''"
      "\<lparr>memory = \<lparr>rows = [\<lparr>row_id = 1, timestamp = ''t0'', category = SqlText ''test'',
                          content = ''hello world''\<rparr>], seq = 1\<rparr>, log_file = None\<rparr>"]
    by simp
qed

section \<open>Properties of the ids\<close>

lemma fold_max_ge: "a \<le> fold max xs a \<and> (\<forall>x\<in>set xs. x \<le> fold max xs (a::nat))"
proof (induction xs arbitrary: a)
  case Nil
  show ?case by simp
next
  case (Cons y ys)
  have "max y a \<le> fold max ys (max y a)" and "\<forall>x\<in>set ys. x \<le> fold max ys (max y a)"
    using Cons.IH [of "max y a"] by simp_all
  then show ?case by auto
qed

lemma largest_id_bounds:
  "seq t \<le> largest_id t" "r \<in> set (rows t) \<Longrightarrow> row_id r \<le> largest_id t"
  using fold_max_ge [of "seq t" "map row_id (rows t)"] by (auto simp: largest_id_def)

lemma insert_row_step:
  assumes "insert_row ts c d t = Inr t'"
  shows "\<exists>r. rows t' = rows t @ [r] \<and> row_id r = largest_id t + 1 \<and> seq t' = row_id r"
  using assms by (auto simp: insert_row_def Let_def split: if_splits)

lemma insert_row_ids_ok:
  assumes "insert_row ts c d t = Inr t'" and "ids_ok t"
  shows "ids_ok t'"
proof -
  from insert_row_step [OF assms(1)] obtain r where
    r: "rows t' = rows t @ [r]" "row_id r = largest_id t + 1" "seq t' = row_id r"
    by blast
  have below: "\<forall>x\<in>set (rows t). row_id x < row_id r"
    using largest_id_bounds(2) [of _ t] r(2) by fastforce
  have "sorted_wrt (<) (map row_id (rows t'))"
    using assms(2) below by (simp add: r(1) ids_ok_def sorted_wrt_append)
  moreover have "\<forall>x\<in>set (rows t'). 0 < row_id x \<and> row_id x \<le> seq t'"
    using assms(2) below r by (auto simp: ids_ok_def)
  ultimately show ?thesis by (simp add: ids_ok_def)
qed

lemma log_event_memory:
  "log_event env m l w = Inr w' \<Longrightarrow> memory w' = memory w"
  "log_event env m l w = Inl (e, w') \<Longrightarrow> memory w' = memory w"
  by (cases "fault env"; auto simp: log_event_def)+

lemma add_memory_entry_table:
  "memory (snd (add_memory_entry ts env cat s w)) = memory w \<or>
   (\<exists>c. insert_row ts c s (memory w) = Inr (memory (snd (add_memory_entry ts env cat s w))))"
proof (cases "bind_param cat")
  case (Inl e)
  then show ?thesis by (simp add: add_memory_entry_def)
next
  case (Inr c)
  show ?thesis
  proof (cases "insert_row ts c s (memory w)")
    case (Inl e)
    then show ?thesis using Inr by (simp add: add_memory_entry_def)
  next
    case ins: (Inr t)
    let ?w1 = "w\<lparr>memory := t\<rparr>"
    let ?msg = "''Memory entry added under '' @ [CHR 0x27] @ py_str cat @ [CHR 0x27]"
    have "memory (snd (add_memory_entry ts env cat s w)) = t"
    proof (cases "log_event env ?msg ''SUCCESS'' ?w1")
      case (Inl ew)
      obtain e w2 where ew: "ew = (e, w2)" by (cases ew)
      then have "memory w2 = t" using log_event_memory(2) [of env ?msg "''SUCCESS''" ?w1 e w2] Inl by simp
      then show ?thesis using Inr ins Inl ew by (simp add: add_memory_entry_def Let_def)
    next
      case w2: (Inr w2)
      then have "memory w2 = t" using log_event_memory(1) [OF w2] by simp
      then show ?thesis using Inr ins w2 by (simp add: add_memory_entry_def Let_def)
    qed
    then show ?thesis using ins by auto
  qed
qed

lemma api_add_memory_table:
  "memory (snd (api_add_memory env j w)) = memory w \<or>
   (\<exists>ts c d. insert_row ts c d (memory w) = Inr (memory (snd (api_add_memory env j w))))"
proof (cases "if truthy j then j else JObj []")
  case (JObj payload)
  show ?thesis
  proof (cases "dict_get payload ''content'' (JStr [])")
    case (JStr s)
    show ?thesis
    proof (cases "strip s = []")
      case True
      then show ?thesis using JObj JStr by (simp add: api_add_memory_def)
    next
      case False
      let ?r = "add_memory_entry (row_now env) (log_answers env)
                  (dict_get payload ''category'' (JStr ''General'')) s w"
      have "snd (api_add_memory env j w) = snd ?r"
        using JObj JStr False
        by (cases ?r; cases "fst ?r") (auto simp: api_add_memory_def)
      then show ?thesis
        using add_memory_entry_table [of "row_now env" "log_answers env"
                "dict_get payload ''category'' (JStr ''General'')" s w]
        by auto
    qed
  qed (simp_all add: JObj api_add_memory_def)
qed (simp_all add: api_add_memory_def)

lemma handle_request_table:
  "memory (snd (handle_request secret env req w)) = memory w \<or>
   (\<exists>ts c d. insert_row ts c d (memory w) = Inr (memory (snd (handle_request secret env req w))))"
proof (cases "authenticate secret (x_api_key req)")
  case (Some denied)
  then show ?thesis by (simp add: handle_request_def)
next
  case None
  show ?thesis
  proof (cases "target req")
    case (MemoryAdd j)
    then show ?thesis
      using None api_add_memory_table [of env j w] by (simp add: handle_request_def view_def)
  qed (simp_all add: None handle_request_def view_def)
qed

lemma handle_request_ids_ok:
  assumes "ids_ok (memory w)"
  shows "ids_ok (memory (snd (handle_request secret env req w))) \<and>
         prefix (rows (memory w)) (rows (memory (snd (handle_request secret env req w))))"
  using handle_request_table [of secret env req w]
proof
  assume "memory (snd (handle_request secret env req w)) = memory w"
  then show ?thesis using assms by simp
next
  assume "\<exists>ts c d. insert_row ts c d (memory w) = Inr (memory (snd (handle_request secret env req w)))"
  then obtain ts c d where
    ins: "insert_row ts c d (memory w) = Inr (memory (snd (handle_request secret env req w)))"
    by blast
  from insert_row_step [OF ins] have
    "prefix (rows (memory w)) (rows (memory (snd (handle_request secret env req w))))"
    by auto
  then show ?thesis using insert_row_ids_ok [OF ins assms] by simp
qed

lemma serve_ids_ok:
  "ids_ok (memory w) \<Longrightarrow>
   ids_ok (memory (serve secret reqs w)) \<and> prefix (rows (memory w)) (rows (memory (serve secret reqs w)))"
proof (induction reqs arbitrary: w)
  case Nil
  then show ?case by simp
next
  case (Cons a reqs)
  obtain env req where a: "a = (env, req)" by (cases a)
  let ?w = "snd (handle_request secret env req w)"
  have 1: "ids_ok (memory ?w)" "prefix (rows (memory w)) (rows (memory ?w))"
    using handle_request_ids_ok [OF Cons.prems] by simp_all
  have 2: "ids_ok (memory (serve secret reqs ?w))"
    "prefix (rows (memory ?w)) (rows (memory (serve secret reqs ?w)))"
    using Cons.IH [OF 1(1)] by simp_all
  show ?case using 1 2 a by (auto intro: prefix_order.trans)
qed

lemma restart_memory: "memory (restart w) = memory w"
  by (simp add: restart_def init_db_def)

lemma lifetimes_ids_ok:
  "ids_ok (memory w) \<Longrightarrow>
   ids_ok (memory (lifetimes runs w)) \<and> prefix (rows (memory w)) (rows (memory (lifetimes runs w)))"
proof (induction runs arbitrary: w)
  case Nil
  then show ?case by simp
next
  case (Cons a runs)
  obtain secret reqs where a: "a = (secret, reqs)" by (cases a)
  let ?w = "serve secret reqs (restart w)"
  have 1: "ids_ok (memory ?w)" "prefix (rows (memory w)) (rows (memory ?w))"
    using serve_ids_ok [of "restart w" secret reqs] Cons.prems by (simp_all add: restart_memory)
  have 2: "ids_ok (memory (lifetimes runs ?w))"
    "prefix (rows (memory ?w)) (rows (memory (lifetimes runs ?w)))"
    using Cons.IH [OF 1(1)] by simp_all
  show ?case using 1 2 a by (auto intro: prefix_order.trans)
qed

lemma lifetimes_append: "lifetimes (xs @ ys) w = lifetimes ys (lifetimes xs w)"
  by (induction xs arbitrary: w) auto

lemma first_start_ids_ok: "ids_ok (memory first_start)"
  by (simp add: first_start_def init_db_def ids_ok_def)

text \<open>
  Claim C9. Over the whole life of the storage file (any number of processes, each with
  any requests, from the first start-up on) the ids of the rows are strictly increasing
  in insertion order, hence unique; they are positive and none exceeds
  \<open>sqlite_sequence\<close>; and rows are only ever appended: what the table held at one
  time is a prefix of what it holds later, so an id once assigned stays with its row.
\<close>

theorem ids_strictly_increasing:
  "sorted_wrt (<) (map row_id (rows (memory (lifetimes runs first_start)))) \<and>
   distinct (map row_id (rows (memory (lifetimes runs first_start)))) \<and>
   (\<forall>r\<in>set (rows (memory (lifetimes runs first_start))).
      0 < row_id r \<and> row_id r \<le> seq (memory (lifetimes runs first_start))) \<and>
   prefix (rows (memory (lifetimes runs first_start)))
          (rows (memory (lifetimes (runs @ later) first_start)))"
proof -
  have ok: "ids_ok (memory (lifetimes runs first_start))"
    using lifetimes_ids_ok [OF first_start_ids_ok] by simp
  then have srt: "sorted_wrt (<) (map row_id (rows (memory (lifetimes runs first_start))))"
    by (simp add: ids_ok_def)
  then have "distinct (map row_id (rows (memory (lifetimes runs first_start))))"
    by (simp add: strict_sorted_iff)
  moreover have "prefix (rows (memory (lifetimes runs first_start)))
          (rows (memory (lifetimes (runs @ later) first_start)))"
    using lifetimes_ids_ok [OF ok, of later] by (simp add: lifetimes_append)
  moreover have "\<forall>r\<in>set (rows (memory (lifetimes runs first_start))).
      0 < row_id r \<and> row_id r \<le> seq (memory (lifetimes runs first_start))"
    using ok by (simp add: ids_ok_def)
  ultimately show ?thesis using srt by simp
qed

theorem ids_strictly_increasing_witness:
  "map row_id (rows (memory (lifetimes
     [(''k1'', [(calm ''t0'' ''t1'',
                 \<lparr>x_api_key = Some ''k1'', target = MemoryAdd (JObj [(''content'', JStr ''a'')])\<rparr>)]),
      (''k2'', [(calm ''t2'' ''t3'',
                 \<lparr>x_api_key = Some ''k2'', target = MemoryAdd (JObj [(''content'', JStr ''b'')])\<rparr>)])]
     first_start))) = [1, 2] \<and>
   distinct (map row_id (rows (memory (lifetimes
     [(''k1'', [(calm ''t0'' ''t1'',
                 \<lparr>x_api_key = Some ''k1'', target = MemoryAdd (JObj [(''content'', JStr ''a'')])\<rparr>)]),
      (''k2'', [(calm ''t2'' ''t3'',
                 \<lparr>x_api_key = Some ''k2'', target = MemoryAdd (JObj [(''content'', JStr ''b'')])\<rparr>)])]
     first_start))))"
proof -
  have "map row_id (rows (memory (lifetimes
     [(''k1'', [(calm ''t0'' ''t1'',
                 \<lparr>x_api_key = Some ''k1'', target = MemoryAdd (JObj [(''content'', JStr ''a'')])\<rparr>)]),
      (''k2'', [(calm ''t2'' ''t3'',
                 \<lparr>x_api_key = Some ''k2'', target = MemoryAdd (JObj [(''content'', JStr ''b'')])\<rparr>)])]
     first_start))) = [1, 2]"
    by (simp add: run_defs)
  then show ?thesis
    using ids_strictly_increasing [of
     "[(''k1'', [(calm ''t0'' ''t1'',
                 \<lparr>x_api_key = Some ''k1'', target = MemoryAdd (JObj [(''content'', JStr ''a'')])\<rparr>)]),
      (''k2'', [(calm ''t2'' ''t3'',
                 \<lparr>x_api_key = Some ''k2'', target = MemoryAdd (JObj [(''content'', JStr ''b'')])\<rparr>)])]"
     "[]"]
    by simp
qed

section \<open>Properties of the log\<close>

lemma hex_val_hex_digit: "k < 16 \<Longrightarrow> hex_val (hex_digit k) = Some k"
proof -
  assume "k < 16"
  then have "k = 0 \<or> k = 1 \<or> k = 2 \<or> k = 3 \<or> k = 4 \<or> k = 5 \<or> k = 6 \<or> k = 7 \<or>
             k = 8 \<or> k = 9 \<or> k = 10 \<or> k = 11 \<or> k = 12 \<or> k = 13 \<or> k = 14 \<or> k = 15"
    by arith
  then show ?thesis
    by (elim disjE) (simp_all add: hex_val_def hex_digit_def)
qed

lemma hex4_byte:
  "hex4 (CHR ''0'') (CHR ''0'') (hex_digit (of_char c div 16)) (hex_digit (of_char c mod 16)) =
     Some (of_char c)"
proof -
  have "(of_char c :: nat) < 256" by simp
  then have hi: "(of_char c :: nat) div 16 < 16" by presburger
  have lo: "(of_char c :: nat) mod 16 < 16" by simp
  have z: "hex_val (CHR ''0'') = Some 0" by (simp add: hex_val_def)
  show ?thesis
    by (simp add: hex4_def z hex_val_hex_digit [OF hi] hex_val_hex_digit [OF lo])
qed

lemma loads_escape_char: "loads_chars (escape_char c @ rest) = push c (loads_chars rest)"
proof -
  consider (short) "c \<in> {QUOTE, BSLASH, LF, CR, CHR 0x09, CHR 0x08, CHR 0x0C}"
    | (plain) "c \<notin> {QUOTE, BSLASH, LF, CR, CHR 0x09, CHR 0x08, CHR 0x0C}"
        "32 \<le> (of_char c :: nat) \<and> (of_char c :: nat) \<le> 126"
    | (uni) "c \<notin> {QUOTE, BSLASH, LF, CR, CHR 0x09, CHR 0x08, CHR 0x0C}"
        "\<not> (32 \<le> (of_char c :: nat) \<and> (of_char c :: nat) \<le> 126)"
    by blast
  then show ?thesis
  proof cases
    case short
    then show ?thesis
      by (auto simp: escape_char_def unescape_def)
  next
    case plain
    then show ?thesis
      by (auto simp: escape_char_def)
  next
    case uni
    have "escape_char c = [BSLASH, CHR ''u'', CHR ''0'', CHR ''0'',
            hex_digit (of_char c div 16), hex_digit (of_char c mod 16)]"
      using uni by (simp add: escape_char_def)
    then show ?thesis
      by (simp add: hex4_byte)
  qed
qed

lemma loads_escaped:
  "loads_chars (concat (map escape_char s) @ QUOTE # rest) = Some (s, rest)"
proof (induction s)
  case Nil
  show ?case by simp
next
  case (Cons c s)
  have "loads_chars (concat (map escape_char (c # s)) @ QUOTE # rest) =
        loads_chars (escape_char c @ (concat (map escape_char s) @ QUOTE # rest))"
    by simp
  also have "\<dots> = push c (loads_chars (concat (map escape_char s) @ QUOTE # rest))"
    by (rule loads_escape_char)
  also have "\<dots> = Some (c # s, rest)"
    by (simp add: Cons.IH push_def)
  finally show ?case .
qed

lemma skip_ws_keep: "\<not> is_ws c \<Longrightarrow> skip_ws (c # s) = c # s"
  by (simp add: skip_ws_def)

lemma skip_ws_space: "skip_ws (CHR '' '' # s) = skip_ws s"
  by (simp add: skip_ws_def is_ws_def)

lemma skip_ws_quote: "skip_ws (QUOTE # s) = QUOTE # s"
  by (simp add: skip_ws_keep is_ws_def)

lemma loads_quoted_dumps: "loads_quoted (dumps_str s @ rest) = Some (s, rest)"
  by (simp add: loads_quoted_def expect_def dumps_str_def skip_ws_quote loads_escaped)

lemma loads_quoted_space: "loads_quoted (CHR '' '' # dumps_str s @ rest) = Some (s, rest)"
  by (simp add: loads_quoted_def expect_def dumps_str_def skip_ws_space skip_ws_quote loads_escaped)

lemma loads_member_dumps: "loads_member (dumps_item (k, v) @ rest) = Some ((k, v), rest)"
proof -
  have "dumps_item (k, v) @ rest = dumps_str k @ (CHR '':'' # CHR '' '' # dumps_str v @ rest)"
    by (simp add: dumps_item_def)
  moreover have "expect (CHR '':'') (CHR '':'' # CHR '' '' # dumps_str v @ rest) =
      Some (CHR '' '' # dumps_str v @ rest)"
    by (simp add: expect_def skip_ws_keep is_ws_def)
  ultimately show ?thesis
    by (simp add: loads_member_def loads_quoted_dumps loads_quoted_space)
qed

lemma loads_members_dumps:
  assumes "skip_ws tail = []"
  shows "kvs \<noteq> [] \<Longrightarrow>
         loads_members (join_items (map dumps_item kvs) @ CHR ''}'' # tail) = Some kvs"
proof (induction kvs)
  case Nil
  then show ?case by simp
next
  case (Cons kv kvs)
  obtain k v where kv: "kv = (k, v)" by (cases kv)
  show ?case
  proof (cases kvs)
    case Nil
    have "loads_members (dumps_item (k, v) @ CHR ''}'' # tail) = Some [(k, v)]"
      by (subst loads_members.simps)
         (simp add: loads_member_dumps skip_ws_keep is_ws_def assms)
    then show ?thesis using Nil kv by simp
  next
    case (Cons kv' kvs')
    let ?more = "join_items (map dumps_item kvs) @ CHR ''}'' # tail"
    have ih: "loads_members ?more = Some kvs"
      using Cons.IH Cons by simp
    have "join_items (map dumps_item (kv # kvs)) @ CHR ''}'' # tail =
          dumps_item (k, v) @ (CHR '','' # CHR '' '' # ?more)"
      using Cons kv by simp
    moreover have "loads_members (dumps_item (k, v) @ (CHR '','' # CHR '' '' # ?more)) =
          (case loads_members (CHR '' '' # ?more) of None \<Rightarrow> None | Some kvs \<Rightarrow> Some ((k, v) # kvs))"
      by (subst loads_members.simps) (simp add: loads_member_dumps skip_ws_keep is_ws_def)
    moreover have "loads_members (CHR '' '' # ?more) = loads_members ?more"
    proof -
      have "loads_member (CHR '' '' # ?more) = loads_member ?more"
        by (simp add: loads_member_def loads_quoted_def expect_def skip_ws_space)
      then show ?thesis
        by (subst loads_members.simps, subst (2) loads_members.simps) simp
    qed
    ultimately show ?thesis using ih kv by simp
  qed
qed

lemma loads_dict_dumps:
  assumes "skip_ws tail = []"
  shows "loads_dict (dumps_dict kvs @ tail) = Some kvs"
proof (cases kvs)
  case Nil
  then show ?thesis
    using assms by (simp add: loads_dict_def dumps_dict_def expect_def skip_ws_keep is_ws_def)
next
  case (Cons kv kvs')
  obtain k v where kv: "kv = (k, v)" by (cases kv)
  let ?body = "join_items (map dumps_item kvs) @ CHR ''}'' # tail"
  have q: "\<exists>x. ?body = QUOTE # x"
    using Cons kv by (cases kvs') (simp_all add: dumps_item_def dumps_str_def)
  then obtain x where x: "?body = QUOTE # x" by blast
  have "expect (CHR ''}'') ?body = None"
    by (simp add: x expect_def skip_ws_quote)
  moreover have "expect (CHR ''{'') (dumps_dict kvs @ tail) = Some ?body"
    by (simp add: dumps_dict_def expect_def skip_ws_keep is_ws_def)
  moreover have "loads_members ?body = Some kvs"
    using loads_members_dumps [OF assms, of kvs] Cons by simp
  ultimately show ?thesis
    by (simp add: loads_dict_def)
qed

lemma hex_digit_no_newline: "k < 16 \<Longrightarrow> hex_digit k \<noteq> LF \<and> hex_digit k \<noteq> CR"
proof -
  assume "k < 16"
  then have "k = 0 \<or> k = 1 \<or> k = 2 \<or> k = 3 \<or> k = 4 \<or> k = 5 \<or> k = 6 \<or> k = 7 \<or>
             k = 8 \<or> k = 9 \<or> k = 10 \<or> k = 11 \<or> k = 12 \<or> k = 13 \<or> k = 14 \<or> k = 15"
    by arith
  then show ?thesis
    by (elim disjE) (simp_all add: hex_digit_def)
qed


lemma escape_char_no_newline: "x \<in> set (escape_char c) \<Longrightarrow> x \<noteq> LF \<and> x \<noteq> CR"
proof -
  assume x: "x \<in> set (escape_char c)"
  consider (short) "c \<in> {QUOTE, BSLASH, LF, CR, CHR 0x09, CHR 0x08, CHR 0x0C}"
    | (plain) "c \<notin> {QUOTE, BSLASH, LF, CR, CHR 0x09, CHR 0x08, CHR 0x0C}"
        "32 \<le> (of_char c :: nat) \<and> (of_char c :: nat) \<le> 126"
    | (uni) "c \<notin> {QUOTE, BSLASH, LF, CR, CHR 0x09, CHR 0x08, CHR 0x0C}"
        "\<not> (32 \<le> (of_char c :: nat) \<and> (of_char c :: nat) \<le> 126)"
    by blast
  then show ?thesis
  proof cases
    case short
    then have "x \<in> {BSLASH, QUOTE, CHR ''n'', CHR ''r'', CHR ''t'', CHR ''b'', CHR ''f''}"
      using x by (auto simp: escape_char_def)
    then show ?thesis by auto
  next
    case plain
    then have "escape_char c = [c]" by (simp add: escape_char_def)
    then show ?thesis using x plain(1) by simp
  next
    case uni
    have "(of_char c :: nat) < 256" by simp
    then have hi: "(of_char c :: nat) div 16 < 16" by presburger
    have lo: "(of_char c :: nat) mod 16 < 16" by simp
    have "escape_char c = [BSLASH, CHR ''u'', CHR ''0'', CHR ''0'',
            hex_digit (of_char c div 16), hex_digit (of_char c mod 16)]"
      using uni by (simp add: escape_char_def)
    then have "x \<in> {BSLASH, CHR ''u'', CHR ''0'',
            hex_digit (of_char c div 16), hex_digit (of_char c mod 16)}"
      using x by auto
    then show ?thesis
      using hex_digit_no_newline [OF hi] hex_digit_no_newline [OF lo] by auto
  qed
qed


lemma dumps_str_no_newline: "x \<in> set (dumps_str s) \<Longrightarrow> x \<noteq> LF \<and> x \<noteq> CR"
proof -
  assume "x \<in> set (dumps_str s)"
  then have "x = QUOTE \<or> (\<exists>c\<in>set s. x \<in> set (escape_char c))"
    by (auto simp: dumps_str_def)
  then show ?thesis
  proof
    assume "x = QUOTE"
    then show ?thesis by simp
  next
    assume "\<exists>c\<in>set s. x \<in> set (escape_char c)"
    then show ?thesis using escape_char_no_newline by blast
  qed
qed

lemma dumps_item_no_newline: "x \<in> set (dumps_item kv) \<Longrightarrow> x \<noteq> LF \<and> x \<noteq> CR"
proof -
  assume "x \<in> set (dumps_item kv)"
  then have "x \<in> set (dumps_str (fst kv)) \<or> x = CHR '':'' \<or> x = CHR '' '' \<or>
             x \<in> set (dumps_str (snd kv))"
    by (auto simp: dumps_item_def)
  then show ?thesis
    using dumps_str_no_newline [of x "fst kv"] dumps_str_no_newline [of x "snd kv"] by auto
qed

lemma join_items_no_newline:
  "\<forall>i\<in>set xs. \<forall>x\<in>set i. x \<noteq> LF \<and> x \<noteq> CR \<Longrightarrow>
   \<forall>x\<in>set (join_items xs). x \<noteq> LF \<and> x \<noteq> CR"
proof (induction xs rule: join_items.induct)
  case 1
  show ?case by simp
next
  case (2 a)
  then show ?case by simp
next
  case (3 a b ys)
  have "\<forall>i\<in>set (b # ys). \<forall>x\<in>set i. x \<noteq> LF \<and> x \<noteq> CR"
    using "3.prems" by simp
  then have ih: "\<forall>x\<in>set (join_items (b # ys)). x \<noteq> LF \<and> x \<noteq> CR"
    by (rule "3.IH")
  have a: "\<forall>x\<in>set a. x \<noteq> LF \<and> x \<noteq> CR"
    using "3.prems" by simp
  have "set (join_items (a # b # ys)) =
        set a \<union> {CHR '','', CHR '' ''} \<union> set (join_items (b # ys))"
    by (simp add: Un_commute insert_commute)
  then show ?case using ih a by blast
qed

lemma dumps_dict_no_newline: "x \<in> set (dumps_dict kvs) \<Longrightarrow> x \<noteq> LF \<and> x \<noteq> CR"
proof -
  assume x: "x \<in> set (dumps_dict kvs)"
  have "\<forall>i\<in>set (map dumps_item kvs). \<forall>x\<in>set i. x \<noteq> LF \<and> x \<noteq> CR"
    using dumps_item_no_newline by auto
  then have "\<forall>x\<in>set (join_items (map dumps_item kvs)). x \<noteq> LF \<and> x \<noteq> CR"
    by (rule join_items_no_newline)
  moreover have "x = CHR ''{'' \<or> x = CHR ''}'' \<or> x \<in> set (join_items (map dumps_item kvs))"
    using x by (auto simp: dumps_dict_def)
  ultimately show ?thesis by auto
qed

lemma universal_newlines_id: "CR \<notin> set s \<Longrightarrow> universal_newlines s = s"
  by (induction s rule: universal_newlines.induct) auto

lemma universal_newlines_append:
  "a = [] \<or> last a \<noteq> CR \<Longrightarrow>
   universal_newlines (a @ b) = universal_newlines a @ universal_newlines b"
proof (induction a rule: universal_newlines.induct)
  case 1
  show ?case by simp
next
  case (2 c)
  then have "c \<noteq> CR" by simp
  then show ?case by (cases b) simp_all
next
  case (3 c d cs)
  then show ?case by (auto split: if_splits)
qed

lemma universal_newlines_last:
  "a \<noteq> [] \<Longrightarrow> last a = LF \<Longrightarrow>
   universal_newlines a \<noteq> [] \<and> last (universal_newlines a) = LF"
proof (induction a rule: universal_newlines.induct)
  case 1
  then show ?case by simp
next
  case (2 c)
  then show ?case by simp
next
  case (3 c d cs)
  then show ?case by (cases cs) (auto split: if_splits)
qed

lemma cut_lines_one: "LF \<notin> set b \<Longrightarrow> cut_lines cur (b @ [LF]) = [cur @ b @ [LF]]"
  by (induction b arbitrary: cur) auto

lemma cut_lines_append:
  "cut_lines cur (a @ LF # b) = cut_lines cur (a @ [LF]) @ cut_lines [] b"
  by (induction a arbitrary: cur) auto

lemma readlines_append_line:
  assumes "t = [] \<or> last t = LF" and "LF \<notin> set b" and "CR \<notin> set b"
  shows "readlines (t @ b @ [LF]) = readlines t @ [b @ [LF]]"
proof -
  have un: "universal_newlines (b @ [LF]) = b @ [LF]"
    using assms(3) by (simp add: universal_newlines_id)
  have "t = [] \<or> last t \<noteq> CR"
    using assms(1) by auto
  then have split: "universal_newlines (t @ b @ [LF]) = universal_newlines t @ b @ [LF]"
    using universal_newlines_append [of t "b @ [LF]"] un by simp
  show ?thesis
  proof (cases "t = []")
    case True
    then show ?thesis
      using assms(2) un cut_lines_one [of b "[]"] by (simp add: readlines_def)
  next
    case False
    then have "universal_newlines t \<noteq> [] \<and> last (universal_newlines t) = LF"
      using assms(1) universal_newlines_last by blast
    then obtain u where u: "universal_newlines t = u @ [LF]"
      by (metis append_butlast_last_id)
    have "cut_lines [] (u @ LF # b @ [LF]) = cut_lines [] (u @ [LF]) @ cut_lines [] (b @ [LF])"
      by (rule cut_lines_append)
    then show ?thesis
      using split u assms(2) cut_lines_one [of b "[]"] by (simp add: readlines_def)
  qed
qed

lemma is_ws_newline: "skip_ws [LF] = []"
  by (simp add: skip_ws_def is_ws_def)

lemma loads_dict_broken:
  "loads_dict ([CHR ''{'', QUOTE, CHR ''t'', CHR ''i'', CHR ''m''] @ CHR ''{'' # QUOTE # CHR ''t'' # rest) =
     None"
proof -
  have q: "loads_quoted (QUOTE # CHR ''t'' # CHR ''i'' # CHR ''m'' # CHR ''{'' # QUOTE # CHR ''t'' # rest) =
      Some (''tim{'', CHR ''t'' # rest)"
    by (simp add: loads_quoted_def expect_def skip_ws_quote push_def)
  have "expect (CHR '':'') (CHR ''t'' # rest) = None"
    by (simp add: expect_def skip_ws_keep is_ws_def)
  then have m: "loads_member (QUOTE # CHR ''t'' # CHR ''i'' # CHR ''m'' # CHR ''{'' # QUOTE # CHR ''t'' # rest) =
      None"
    by (simp add: loads_member_def q)
  have "loads_members (QUOTE # CHR ''t'' # CHR ''i'' # CHR ''m'' # CHR ''{'' # QUOTE # CHR ''t'' # rest) =
      None"
    by (subst loads_members.simps) (simp add: m)
  then show ?thesis
    by (simp add: loads_dict_def expect_def skip_ws_keep skip_ws_quote is_ws_def)
qed

text \<open>
  Claim C6, as stated, fails: not every call adds a line, and a line that is added need
  not be a JSON object. A call whose \<open>open\<close> raises leaves the file as it was. A call
  whose write raises after five characters leaves those five characters in the file,
  and the next call, which goes through, appends its line to them: the file then has
  one line, and that line does not read as JSON.
\<close>

theorem log_event_counterexample:
  "log_event \<lparr>now = ''t0'', fault = Some (OpenFails ''Permission denied'')\<rparr> ''hi'' ''INFO''
     first_start = Inl (OSError ''Permission denied'', first_start) \<and>
   log_event \<lparr>now = ''t0'', fault = Some (WriteFails 5 ''No space left on device'')\<rparr> ''hi'' ''INFO''
     first_start =
     Inl (OSError ''No space left on device'',
          first_start\<lparr>log_file := Some [CHR ''{'', QUOTE, CHR ''t'', CHR ''i'', CHR ''m'']\<rparr>) \<and>
   log_event \<lparr>now = ''t1'', fault = None\<rparr> ''hi'' ''INFO''
     (first_start\<lparr>log_file := Some [CHR ''{'', QUOTE, CHR ''t'', CHR ''i'', CHR ''m'']\<rparr>) =
     Inr (first_start\<lparr>log_file :=
            Some ([CHR ''{'', QUOTE, CHR ''t'', CHR ''i'', CHR ''m''] @ log_line ''t1'' ''INFO'' ''hi'')\<rparr>) \<and>
   readlines ([CHR ''{'', QUOTE, CHR ''t'', CHR ''i'', CHR ''m''] @ log_line ''t1'' ''INFO'' ''hi'') =
     [[CHR ''{'', QUOTE, CHR ''t'', CHR ''i'', CHR ''m''] @ log_line ''t1'' ''INFO'' ''hi''] \<and>
   loads_dict ([CHR ''{'', QUOTE, CHR ''t'', CHR ''i'', CHR ''m''] @ log_line ''t1'' ''INFO'' ''hi'') = None"
proof -
  let ?kvs = "[(''timestamp'', ''t1''), (''level'', upper ''INFO''), (''message'', ''hi'')]"
  let ?part = "[CHR ''{'', QUOTE, CHR ''t'', CHR ''i'', CHR ''m'']"
  have a: "log_event \<lparr>now = ''t0'', fault = Some (OpenFails ''Permission denied'')\<rparr> ''hi'' ''INFO''
     first_start = Inl (OSError ''Permission denied'', first_start)"
    by (simp add: log_event_def fault_text_def fault_leaves_def)
  have start: "take 5 (log_line ''t0'' ''INFO'' ''hi'') = ?part"
    by (simp add: log_line_def dumps_dict_def dumps_item_def dumps_str_def escape_char_def)
  have b: "log_event \<lparr>now = ''t0'', fault = Some (WriteFails 5 ''No space left on device'')\<rparr> ''hi'' ''INFO''
     first_start =
     Inl (OSError ''No space left on device'', first_start\<lparr>log_file := Some ?part\<rparr>)"
    by (simp add: log_event_def fault_text_def fault_leaves_def start)
       (simp add: first_start_def file_text_def)
  have c: "log_event \<lparr>now = ''t1'', fault = None\<rparr> ''hi'' ''INFO''
     (first_start\<lparr>log_file := Some ?part\<rparr>) =
     Inr (first_start\<lparr>log_file := Some (?part @ log_line ''t1'' ''INFO'' ''hi'')\<rparr>)"
    by (simp add: log_event_def file_text_def)
  have nl: "LF \<notin> set (?part @ dumps_dict ?kvs)" "CR \<notin> set (?part @ dumps_dict ?kvs)"
    using dumps_dict_no_newline [of _ ?kvs] by auto
  have "readlines ([] @ (?part @ dumps_dict ?kvs) @ [LF]) =
          readlines [] @ [(?part @ dumps_dict ?kvs) @ [LF]]"
    using nl by (intro readlines_append_line) simp_all
  then have d: "readlines (?part @ log_line ''t1'' ''INFO'' ''hi'') =
     [?part @ log_line ''t1'' ''INFO'' ''hi'']"
    by (simp add: log_line_def readlines_def)
  have "\<exists>rest. log_line ''t1'' ''INFO'' ''hi'' = CHR ''{'' # QUOTE # CHR ''t'' # rest"
    by (simp add: log_line_def dumps_dict_def dumps_item_def dumps_str_def escape_char_def)
  then obtain rest where "log_line ''t1'' ''INFO'' ''hi'' = CHR ''{'' # QUOTE # CHR ''t'' # rest"
    by blast
  then have e: "loads_dict (?part @ log_line ''t1'' ''INFO'' ''hi'') = None"
    using loads_dict_broken [of rest] by simp
  show ?thesis
    using a b c d e by blast
qed

text \<open>
  Claim C6, amended. A call of \<open>log_event\<close> whose write goes through, on a log file
  that has only complete lines (it does not exist, is empty, or ends with a newline),
  adds exactly one line to it: \<open>readlines\<close> afterwards gives the lines of before
  followed by the new one. The new line reads back as a JSON object with exactly the
  members \<open>timestamp\<close>, \<open>level\<close> and \<open>message\<close>, in this order, the level in upper
  case (for a level whose upper-case form is within the characters of the model). The
  file again has only complete lines, and the memory table is untouched.
\<close>

theorem log_event_one_line:
  assumes "fault env = None" and "terminated (log_file w)" and "upper_known level"
  shows "\<exists>w'. log_event env message level w = Inr w' \<and>
              readlines (file_text (log_file w')) =
                readlines (file_text (log_file w)) @ [log_line (now env) level message] \<and>
              loads_dict (log_line (now env) level message) =
                Some [(''timestamp'', now env), (''level'', upper level), (''message'', message)] \<and>
              terminated (log_file w') \<and> memory w' = memory w"
proof -
  let ?kvs = "[(''timestamp'', now env), (''level'', upper level), (''message'', message)]"
  let ?w = "w\<lparr>log_file := Some (file_text (log_file w) @ log_line (now env) level message)\<rparr>"
  have ev: "log_event env message level w = Inr ?w"
    using assms(1) by (simp add: log_event_def)
  have old: "file_text (log_file w) = [] \<or> last (file_text (log_file w)) = LF"
    using assms(2) by (cases "log_file w") (simp_all add: terminated_def file_text_def)
  have nl: "LF \<notin> set (dumps_dict ?kvs)" "CR \<notin> set (dumps_dict ?kvs)"
    using dumps_dict_no_newline [of _ ?kvs] by blast+
  have "readlines (file_text (log_file w) @ dumps_dict ?kvs @ [LF]) =
        readlines (file_text (log_file w)) @ [dumps_dict ?kvs @ [LF]]"
    using old nl by (rule readlines_append_line)
  then have lines: "readlines (file_text (log_file ?w)) =
      readlines (file_text (log_file w)) @ [log_line (now env) level message]"
    by (simp add: log_line_def file_text_def)
  have dec: "loads_dict (log_line (now env) level message) = Some ?kvs"
    unfolding log_line_def by (rule loads_dict_dumps [OF is_ws_newline])
  have "terminated (log_file ?w)"
    by (simp add: terminated_def log_line_def)
  then show ?thesis
    using ev lines dec by simp
qed

lemma dumps_plain:
  assumes "\<forall>c\<in>set s. 32 \<le> (of_char c :: nat) \<and> (of_char c :: nat) \<le> 126 \<and>
                    c \<noteq> QUOTE \<and> c \<noteq> BSLASH"
  shows "dumps_str s = QUOTE # s @ [QUOTE]"
proof -
  have "escape_char c = [c]" if "c \<in> set s" for c
  proof -
    have "32 \<le> (of_char c :: nat)" "(of_char c :: nat) \<le> 126" "c \<noteq> QUOTE" "c \<noteq> BSLASH"
      using assms that by auto
    moreover from this have "c \<noteq> LF" "c \<noteq> CR" "c \<noteq> CHR 0x09" "c \<noteq> CHR 0x08" "c \<noteq> CHR 0x0C"
      by auto
    ultimately show ?thesis by (simp add: escape_char_def)
  qed
  then have e: "map escape_char s = map (\<lambda>c. [c]) s"
    by (rule map_cong [OF refl])
  have "concat (map (\<lambda>c. [c]) s) = s"
    by (induction s) simp_all
  then have "concat (map escape_char s) = s"
    by (simp only: e)
  then show ?thesis
    by (simp add: dumps_str_def)
qed

theorem log_event_one_line_witness:
  "(\<exists>w'. log_event \<lparr>now = ''2025-01-01T10:00:00'', fault = None\<rparr> ''hi'' ''info'' first_start = Inr w' \<and>
         readlines (file_text (log_file w')) = [log_line ''2025-01-01T10:00:00'' ''info'' ''hi''] \<and>
         loads_dict (log_line ''2025-01-01T10:00:00'' ''info'' ''hi'') =
           Some [(''timestamp'', ''2025-01-01T10:00:00''), (''level'', ''INFO''), (''message'', ''hi'')]) \<and>
   log_line ''2025-01-01T10:00:00'' ''info'' ''hi'' =
     ''{'' @ [QUOTE] @ ''timestamp'' @ [QUOTE] @ '': '' @ [QUOTE] @ ''2025-01-01T10:00:00'' @ [QUOTE] @
     '', '' @ [QUOTE] @ ''level'' @ [QUOTE] @ '': '' @ [QUOTE] @ ''INFO'' @ [QUOTE] @
     '', '' @ [QUOTE] @ ''message'' @ [QUOTE] @ '': '' @ [QUOTE] @ ''hi'' @ [QUOTE] @ ''}'' @ [LF] \<and>
   (\<exists>w'. log_event \<lparr>now = ''t1'', fault = None\<rparr> ''ok'' [CHR ''W'', CHR 0xE9, CHR 0xDF, CHR ''-'', CHR ''z'']
           \<lparr>memory = init_db None, log_file = Some (''x'' @ [LF])\<rparr> = Inr w' \<and>
         readlines (file_text (log_file w')) =
           [''x'' @ [LF], log_line ''t1'' [CHR ''W'', CHR 0xE9, CHR 0xDF, CHR ''-'', CHR ''z''] ''ok''] \<and>
         loads_dict (log_line ''t1'' [CHR ''W'', CHR 0xE9, CHR 0xDF, CHR ''-'', CHR ''z''] ''ok'') =
           Some [(''timestamp'', ''t1''),
                 (''level'', [CHR ''W'', CHR 0xC9, CHR ''S'', CHR ''S'', CHR ''-'', CHR ''Z'']),
                 (''message'', ''ok'')])"
proof -
  have h1: "fault \<lparr>now = ''2025-01-01T10:00:00'', fault = None\<rparr> = None"
    "fault \<lparr>now = ''t1'', fault = None\<rparr> = None"
    by simp_all
  have h2: "terminated (log_file first_start)"
    "terminated (log_file \<lparr>memory = init_db None, log_file = Some (''x'' @ [LF])\<rparr>)"
    by (simp_all add: terminated_def first_start_def)
  have h3: "upper_known ''info''"
    "upper_known [CHR ''W'', CHR 0xE9, CHR 0xDF, CHR ''-'', CHR ''z'']"
    by (simp_all add: upper_known_def)
  have up: "upper ''info'' = ''INFO''"
    "upper [CHR ''W'', CHR 0xE9, CHR 0xDF, CHR ''-'', CHR ''z''] =
       [CHR ''W'', CHR 0xC9, CHR ''S'', CHR ''S'', CHR ''-'', CHR ''Z'']"
    by code_simp+
  have old: "readlines (file_text (log_file first_start)) = []"
    "readlines (file_text (Some [CHR ''x'', LF])) = [[CHR ''x'', LF]]"
    by (simp_all add: first_start_def file_text_def readlines_def)
  have a: "\<exists>w'. log_event \<lparr>now = ''2025-01-01T10:00:00'', fault = None\<rparr> ''hi'' ''info'' first_start = Inr w' \<and>
         readlines (file_text (log_file w')) = [log_line ''2025-01-01T10:00:00'' ''info'' ''hi''] \<and>
         loads_dict (log_line ''2025-01-01T10:00:00'' ''info'' ''hi'') =
           Some [(''timestamp'', ''2025-01-01T10:00:00''), (''level'', ''INFO''), (''message'', ''hi'')]"
    using log_event_one_line [OF h1(1) h2(1) h3(1), of "''hi''"]
    by (simp add: up old, blast)
  have b: "log_line ''2025-01-01T10:00:00'' ''info'' ''hi'' =
     ''{'' @ [QUOTE] @ ''timestamp'' @ [QUOTE] @ '': '' @ [QUOTE] @ ''2025-01-01T10:00:00'' @ [QUOTE] @
     '', '' @ [QUOTE] @ ''level'' @ [QUOTE] @ '': '' @ [QUOTE] @ ''INFO'' @ [QUOTE] @
     '', '' @ [QUOTE] @ ''message'' @ [QUOTE] @ '': '' @ [QUOTE] @ ''hi'' @ [QUOTE] @ ''}'' @ [LF]"
    by (simp add: log_line_def up dumps_dict_def dumps_item_def dumps_plain)
  have c: "\<exists>w'. log_event \<lparr>now = ''t1'', fault = None\<rparr> ''ok'' [CHR ''W'', CHR 0xE9, CHR 0xDF, CHR ''-'', CHR ''z'']
           \<lparr>memory = init_db None, log_file = Some (''x'' @ [LF])\<rparr> = Inr w' \<and>
         readlines (file_text (log_file w')) =
           [''x'' @ [LF], log_line ''t1'' [CHR ''W'', CHR 0xE9, CHR 0xDF, CHR ''-'', CHR ''z''] ''ok''] \<and>
         loads_dict (log_line ''t1'' [CHR ''W'', CHR 0xE9, CHR 0xDF, CHR ''-'', CHR ''z''] ''ok'') =
           Some [(''timestamp'', ''t1''),
                 (''level'', [CHR ''W'', CHR 0xC9, CHR ''S'', CHR ''S'', CHR ''-'', CHR ''Z'']),
                 (''message'', ''ok'')]"
    using log_event_one_line [OF h1(2) h2(2) h3(2), of "''ok''"]
    by (simp add: up old, blast)
  show ?thesis
    using a b c by blast
qed

section \<open>Properties of self-maintenance\<close>

text \<open>
  Claim C7, as stated, fails twice. An iteration writes the heartbeat line first and
  sleeps afterwards, not the other way round. And when the log file cannot be written,
  the \<open>log_event\<close> of the handler raises as well, outside any \<open>try\<close>: the loop
  ends in its first iteration.
\<close>

theorem heartbeat_counterexample:
  "loop_body (steady \<lparr>now = ''t0'', fault = None\<rparr> \<lparr>now = ''t1'', fault = None\<rparr> 0)
     \<lparr>hb_world = first_start, hb_trace = []\<rparr> =
   Inr \<lparr>hb_world = first_start\<lparr>log_file :=
            Some (log_line ''t0'' ''INFO'' ''Self-check: AI-OS running smoothly'')\<rparr>,
        hb_trace = [Logged ''INFO'' ''Self-check: AI-OS running smoothly'', Slept 300]\<rparr> \<and>
   background_maintenance 1
     (steady \<lparr>now = ''t0'', fault = Some (OpenFails ''No space left on device'')\<rparr>
             \<lparr>now = ''t1'', fault = Some (OpenFails ''No space left on device'')\<rparr>) 0
     \<lparr>hb_world = first_start, hb_trace = []\<rparr> =
   Died (OSError ''No space left on device'') \<lparr>hb_world = first_start, hb_trace = []\<rparr>"
  by (simp add: loop_body_def log_event_def steady_def first_start_def file_text_def
        fault_text_def fault_leaves_def str_exn_def PERIODIC_TASK_INTERVAL_def)

lemma fault_leaves_text:
  "file_text (fault_leaves f line file) = file_text file @ fault_partial f line"
  by (cases f) (simp_all add: fault_leaves_def fault_partial_def file_text_def)

lemma loop_body_beat:
  assumes "fault (try_answers e) \<noteq> None \<longrightarrow> fault (handler_answers e) = None"
  shows "loop_body e h =
           Inr \<lparr>hb_world = (hb_world h)\<lparr>log_file :=
                    Some (file_text (log_file (hb_world h)) @ beat_line e)\<rparr>,
                hb_trace = hb_trace h @ beat e\<rparr>"
proof (cases "fault (try_answers e)")
  case None
  then show ?thesis
    by (simp add: loop_body_def log_event_def beat_def beat_line_def)
next
  case (Some f)
  then have "fault (handler_answers e) = None" using assms by simp
  then show ?thesis using Some
    by (simp add: loop_body_def log_event_def beat_def beat_line_def str_exn_def
          fault_leaves_text)
qed

text \<open>
  Claim C7, amended. As long as the handler's own log write goes through whenever the
  heartbeat write has raised, the loop is still running after any number of iterations.
  Each iteration first writes its line (the heartbeat line at level INFO, or, when that
  write raised, the error line at level ERROR with the text of the exception, after
  whatever the failed write left in the file) and then sleeps
  \<open>PERIODIC_TASK_INTERVAL\<close> seconds; the memory table is never touched.
\<close>

theorem heartbeat_keeps_running:
  assumes "\<forall>k. fault (try_answers (env k)) \<noteq> None \<longrightarrow> fault (handler_answers (env k)) = None"
  shows "\<exists>h'. background_maintenance n env i h = Running h' \<and>
              hb_trace h' = hb_trace h @ concat (map (\<lambda>k. beat (env k)) [i..<i + n]) \<and>
              log_file (hb_world h') =
                (if n = 0 then log_file (hb_world h)
                 else Some (file_text (log_file (hb_world h)) @
                            concat (map (\<lambda>k. beat_line (env k)) [i..<i + n]))) \<and>
              memory (hb_world h') = memory (hb_world h)"
proof (induction n arbitrary: i h)
  case 0
  show ?case by simp
next
  case (Suc n)
  let ?h1 = "\<lparr>hb_world = (hb_world h)\<lparr>log_file :=
                    Some (file_text (log_file (hb_world h)) @ beat_line (env i))\<rparr>,
                hb_trace = hb_trace h @ beat (env i)\<rparr>"
  have step: "loop_body (env i) h = Inr ?h1"
    using assms by (simp add: loop_body_beat)
  from Suc.IH [of "Suc i" ?h1] obtain h' where
    run: "background_maintenance n env (Suc i) ?h1 = Running h'" and
    tr: "hb_trace h' = hb_trace ?h1 @ concat (map (\<lambda>k. beat (env k)) [Suc i..<Suc i + n])" and
    lg: "log_file (hb_world h') =
           (if n = 0 then log_file (hb_world ?h1)
            else Some (file_text (log_file (hb_world ?h1)) @
                       concat (map (\<lambda>k. beat_line (env k)) [Suc i..<Suc i + n])))" and
    mem: "memory (hb_world h') = memory (hb_world ?h1)"
    by blast
  have upt: "[i..<i + Suc n] = i # [Suc i..<Suc i + n]"
    by (simp add: upt_rec)
  have "background_maintenance (Suc n) env i h = Running h'"
    using step run by simp
  moreover have "hb_trace h' = hb_trace h @ concat (map (\<lambda>k. beat (env k)) [i..<i + Suc n])"
    using tr by (simp only: upt) simp
  moreover have "log_file (hb_world h') =
      Some (file_text (log_file (hb_world h)) @
            concat (map (\<lambda>k. beat_line (env k)) [i..<i + Suc n]))"
    using lg by (simp only: upt) (simp add: file_text_def)
  moreover have "memory (hb_world h') = memory (hb_world h)"
    using mem by simp
  ultimately show ?case by simp
qed

theorem heartbeat_keeps_running_witness:
  "\<exists>h'. background_maintenance 2
           (steady \<lparr>now = ''t0'', fault = Some (OpenFails ''Permission denied'')\<rparr> \<lparr>now = ''t1'', fault = None\<rparr>) 0
           \<lparr>hb_world = first_start, hb_trace = []\<rparr> = Running h' \<and>
         hb_trace h' =
           [Logged ''ERROR'' ''Background maintenance error: Permission denied'', Slept 300,
            Logged ''ERROR'' ''Background maintenance error: Permission denied'', Slept 300]"
proof -
  have hyp: "\<forall>k. fault (try_answers (steady \<lparr>now = ''t0'', fault = Some (OpenFails ''Permission denied'')\<rparr>
                        \<lparr>now = ''t1'', fault = None\<rparr> k)) \<noteq> None \<longrightarrow>
                 fault (handler_answers (steady \<lparr>now = ''t0'', fault = Some (OpenFails ''Permission denied'')\<rparr>
                        \<lparr>now = ''t1'', fault = None\<rparr> k)) = None"
    by (simp add: steady_def)
  have two: "[0..<0 + 2] = [0, Suc 0]"
    by (simp add: upt_rec)
  have b: "beat (steady \<lparr>now = ''t0'', fault = Some (OpenFails ''Permission denied'')\<rparr>
                        \<lparr>now = ''t1'', fault = None\<rparr> k) =
             [Logged ''ERROR'' ''Background maintenance error: Permission denied'', Slept 300]" for k
    by (simp add: beat_def steady_def fault_text_def PERIODIC_TASK_INTERVAL_def)
  show ?thesis
    using heartbeat_keeps_running [OF hyp, of 2 0 "\<lparr>hb_world = first_start, hb_trace = []\<rparr>"]
    by (simp only: two) (auto simp: b)
qed

end
